theory Spec2Isabelle
  imports Complex_Main "HOL-Library.Log_Nat"
begin

section \<open>The job record and the in-memory store (shared/schema.ts, server/storage.ts)\<close>

text \<open>
  A row of the \<^verbatim>\<open>downloads\<close> table. The columns \<^verbatim>\<open>progress\<close>, \<^verbatim>\<open>fileName\<close>,
  \<^verbatim>\<open>fileSize\<close>, \<^verbatim>\<open>zipPath\<close>, \<^verbatim>\<open>errorMessage\<close> and \<^verbatim>\<open>createdAt\<close> are nullable:
  \<open>None\<close> is \<^verbatim>\<open>null\<close>. The status column is free text in the schema, so it is a string
  here as well. Ids are JavaScript numbers that only ever hold integers (the counter starts
  at 1 and is incremented by one); they are modelled as unbounded integers, which is exact
  below \<open>2^53\<close>. A timestamp is a number of milliseconds.

  The URL, the format, the quality, the status and the messages are only ever compared
  with ASCII literals and are HOL strings. The file name and the paths come from the
  video title and go into a response header, where the code unit matters: they are lists
  of UTF-16 code units (as integers), as the strings of JavaScript are; \<open>units\<close>
  embeds an ASCII literal.
\<close>

type_synonym jsstring = "int list"

definition units :: "string \<Rightarrow> jsstring" where
  "units t = map (of_char :: char \<Rightarrow> int) t"

record download =
  id' :: int
  url :: string
  format :: string
  quality :: string
  status :: string
  progress :: "int option"
  fileName :: "jsstring option"
  fileSize :: "string option"
  zipPath :: "jsstring option"
  errorMessage :: "string option"
  createdAt :: "nat option"

text \<open>\<^verbatim>\<open>InsertDownload\<close>: the three picked columns.\<close>

record insert_download =
  ins_url :: string
  ins_format :: string
  ins_quality :: string

text \<open>
  \<^verbatim>\<open>Partial<Download>\<close>: every property may be absent (\<open>None\<close>); a present property of a
  nullable column carries its own \<open>option\<close>.
\<close>

record download_updates =
  upd_id :: "int option"
  upd_url :: "string option"
  upd_format :: "string option"
  upd_quality :: "string option"
  upd_status :: "string option"
  upd_progress :: "int option option"
  upd_fileName :: "jsstring option option"
  upd_fileSize :: "string option option"
  upd_zipPath :: "jsstring option option"
  upd_errorMessage :: "string option option"
  upd_createdAt :: "nat option option"

definition no_updates :: download_updates where
  "no_updates =
     \<lparr>upd_id = None, upd_url = None, upd_format = None, upd_quality = None,
      upd_status = None, upd_progress = None, upd_fileName = None, upd_fileSize = None,
      upd_zipPath = None, upd_errorMessage = None, upd_createdAt = None\<rparr>"

text \<open>The object spread \<^verbatim>\<open>{ ...download, ...updates }\<close>: a present property wins.\<close>

definition override :: "'a \<Rightarrow> 'a option \<Rightarrow> 'a" where
  "override old new = (case new of None \<Rightarrow> old | Some v \<Rightarrow> v)"

definition spread :: "download \<Rightarrow> download_updates \<Rightarrow> download" where
  "spread d u =
     \<lparr>id' = override (id' d) (upd_id u),
      url = override (url d) (upd_url u),
      format = override (format d) (upd_format u),
      quality = override (quality d) (upd_quality u),
      status = override (status d) (upd_status u),
      progress = override (progress d) (upd_progress u),
      fileName = override (fileName d) (upd_fileName u),
      fileSize = override (fileSize d) (upd_fileSize u),
      zipPath = override (zipPath d) (upd_zipPath u),
      errorMessage = override (errorMessage d) (upd_errorMessage u),
      createdAt = override (createdAt d) (upd_createdAt u)\<rparr>"

text \<open>
  \<^verbatim>\<open>MemStorage\<close>, as far as jobs are concerned: the map of job records and the id counter.
  (The user table of the class is not touched by any job operation.)
\<close>

record mem_storage =
  downloads :: "int \<rightharpoonup> download"
  currentDownloadId :: int

definition MemStorage :: mem_storage where
  "MemStorage = \<lparr>downloads = Map.empty, currentDownloadId = 1\<rparr>"

text \<open>\<^verbatim>\<open>createDownload\<close>; \<open>now\<close> is the value of \<^verbatim>\<open>new Date()\<close>.\<close>

definition createDownload ::
  "insert_download \<Rightarrow> nat \<Rightarrow> mem_storage \<Rightarrow> download \<times> mem_storage" where
  "createDownload insertDownload now st =
     (let i = currentDownloadId st;
          d = \<lparr>id' = i,
               url = ins_url insertDownload,
               format = ins_format insertDownload,
               quality = ins_quality insertDownload,
               status = ''pending'',
               progress = Some 0,
               fileName = None,
               fileSize = None,
               zipPath = None,
               errorMessage = None,
               createdAt = Some now\<rparr>
      in (d, \<lparr>downloads = (downloads st)(i \<mapsto> d), currentDownloadId = i + 1\<rparr>))"

definition getDownload :: "int \<Rightarrow> mem_storage \<Rightarrow> download option" where
  "getDownload i st = downloads st i"

definition updateDownload ::
  "int \<Rightarrow> download_updates \<Rightarrow> mem_storage \<Rightarrow> download option \<times> mem_storage" where
  "updateDownload i updates st =
     (case downloads st i of
        None \<Rightarrow> (None, st)
      | Some d \<Rightarrow>
          (let updatedDownload = spread d updates
           in (Some updatedDownload, st\<lparr>downloads := (downloads st)(i \<mapsto> updatedDownload)\<rparr>)))"

text \<open>A sequence of calls on the store, and the records its \<^verbatim>\<open>createDownload\<close> calls return.\<close>

datatype storage_call = Create insert_download nat | Update int download_updates

fun calls :: "storage_call list \<Rightarrow> mem_storage \<Rightarrow> download list \<times> mem_storage" where
  "calls [] st = ([], st)"
| "calls (Create ins now # cs) st =
     (let (d, st') = createDownload ins now st; (ds, st'') = calls cs st' in (d # ds, st''))"
| "calls (Update i u # cs) st = calls cs (snd (updateDownload i u st))"


section \<open>Request validation (\<^verbatim>\<open>downloadRequestSchema\<close> of shared/schema.ts)\<close>

text \<open>
  The three regular expressions are all anchored at the start only and are built from
  literals, optional literals and a final \<^verbatim>\<open>[\w-]+\<close>. \<open>rx_test\<close> is
  \<^verbatim>\<open>RegExp.prototype.test\<close> for such a pattern, with the backtracking written out as a
  disjunction.
\<close>

datatype atom = Lit string | Opt string | WordDashPlus

fun strip_prefix :: "string \<Rightarrow> string \<Rightarrow> string option" where
  "strip_prefix [] s = Some s"
| "strip_prefix (c # cs) [] = None"
| "strip_prefix (c # cs) (d # ds) = (if c = d then strip_prefix cs ds else None)"

definition word_char :: "char \<Rightarrow> bool" where
  "word_char c =
     (let n = (of_char c :: nat)
      in (48 \<le> n \<and> n \<le> 57) \<or> (65 \<le> n \<and> n \<le> 90) \<or> n = 95 \<or> (97 \<le> n \<and> n \<le> 122))"

definition word_or_dash :: "char \<Rightarrow> bool" where
  "word_or_dash c = (word_char c \<or> c = CHR ''-'')"

fun rx_test :: "atom list \<Rightarrow> string \<Rightarrow> bool" where
  "rx_test [] s = True"
| "rx_test (Lit l # r) s = (case strip_prefix l s of None \<Rightarrow> False | Some t \<Rightarrow> rx_test r t)"
| "rx_test (Opt l # r) s =
     ((case strip_prefix l s of None \<Rightarrow> False | Some t \<Rightarrow> rx_test r t) \<or> rx_test r s)"
| "rx_test (WordDashPlus # r) s =
     list_ex (\<lambda>n. rx_test r (drop n s)) [1..<Suc (length (takeWhile word_or_dash s))]"

definition patterns :: "atom list list" where
  "patterns =
     [[Lit ''http'', Opt ''s'', Lit ''://'', Opt ''www.'', Lit ''youtube.com/watch?v='', WordDashPlus],
      [Lit ''http'', Opt ''s'', Lit ''://youtu.be/'', WordDashPlus],
      [Lit ''http'', Opt ''s'', Lit ''://'', Opt ''www.'', Lit ''youtube.com/embed/'', WordDashPlus]]"

definition youtube_url :: "string \<Rightarrow> bool" where
  "youtube_url u = list_ex (\<lambda>pattern. rx_test pattern u) patterns"

definition formats_enum :: "string list" where
  "formats_enum = [''mp4'', ''mp3'', ''webm'']"

definition qualities_enum :: "string list" where
  "qualities_enum = [''1080p'', ''720p'', ''480p'', ''360p'', ''best'']"

text \<open>
  The request body: a property is \<open>None\<close> when it is missing or not a string (zod rejects
  both). \<open>is_url\<close> stands for zod's \<^verbatim>\<open>z.string().url()\<close> check, which belongs to the
  library and is a parameter here. A failed parse is the list of zod's issues.
\<close>

record request_body =
  b_url :: "string option"
  b_format :: "string option"
  b_quality :: "string option"

datatype issue = Required string | InvalidUrl | Custom string | InvalidEnumValue string

definition url_issues :: "(string \<Rightarrow> bool) \<Rightarrow> string option \<Rightarrow> issue list" where
  "url_issues is_url v =
     (case v of
        None \<Rightarrow> [Required ''url'']
      | Some u \<Rightarrow>
          (if is_url u then [] else [InvalidUrl]) @
          (if youtube_url u then [] else [Custom ''Must be a valid YouTube URL'']))"

definition enum_issues :: "string \<Rightarrow> string list \<Rightarrow> string option \<Rightarrow> issue list" where
  "enum_issues key allowed v =
     (case v of
        None \<Rightarrow> [Required key]
      | Some x \<Rightarrow> (if x \<in> set allowed then [] else [InvalidEnumValue key]))"

definition downloadRequestSchema_parse ::
  "(string \<Rightarrow> bool) \<Rightarrow> request_body \<Rightarrow> issue list + insert_download" where
  "downloadRequestSchema_parse is_url b =
     (let issues = url_issues is_url (b_url b) @ enum_issues ''format'' formats_enum (b_format b) @
                   enum_issues ''quality'' qualities_enum (b_quality b)
      in case (issues, b_url b, b_format b, b_quality b) of
           ([], Some u, Some f, Some q) \<Rightarrow> Inr \<lparr>ins_url = u, ins_format = f, ins_quality = q\<rparr>
         | _ \<Rightarrow> Inl issues)"


section \<open>The server state and the HTTP surface (routes)\<close>

text \<open>
  A JavaScript number: a finite double, held as the rational number it denotes, or one of
  the non-finite values. The sign of zero is not modelled.
\<close>

datatype jsnum = Num rat | PosInf | NegInf | NaN

text \<open>A frame handed to \<^verbatim>\<open>broadcastProgress\<close>: the job id and the payload's properties.\<close>

record frame =
  f_downloadId :: int
  f_status :: string
  f_progress :: "jsnum option"
  f_error :: "string option"

text \<open>
  The state of the server process: the store; the archive files on disk (path to
  contents; the scratch directory of a job is written and removed by its runner alone and
  is left out); the frames broadcast so far, oldest first (every open client receives each
  of them); the job runners started and not yet run; the open read streams of archive
  responses; the pending deletion timers with their delay in milliseconds.
\<close>

record sys =
  storage :: mem_storage
  files :: "jsstring \<rightharpoonup> string"
  frames :: "frame list"
  tasks :: "int list"
  streams :: "jsstring list"
  timers :: "(nat \<times> jsstring) list"

definition boot :: sys where
  "boot = \<lparr>storage = MemStorage, files = Map.empty, frames = [], tasks = [],
           streams = [], timers = []\<rparr>"

text \<open>
  Response bodies: \<open>Started i\<close> is \<^verbatim>\<open>{ downloadId: i, status: "started" }\<close>,
  \<open>ValidationError\<close> and \<open>ErrorMessage\<close> are \<^verbatim>\<open>{ error: ... }\<close>, \<open>JobJson\<close> the
  job record, \<open>FileStream\<close> the bytes piped from the archive file.
\<close>

datatype body =
    Started int
  | ValidationError "issue list"
  | ErrorMessage string
  | JobJson download
  | FileStream string

record response =
  code :: nat
  headers :: "(string \<times> jsstring) list"
  body :: body

text \<open>
  \<^verbatim>\<open>POST /api/downloads\<close>. The runner is started without being awaited: it is queued in
  \<open>tasks\<close> and its first store write happens after the response.
\<close>

definition post_downloads ::
  "(string \<Rightarrow> bool) \<Rightarrow> request_body \<Rightarrow> nat \<Rightarrow> sys \<Rightarrow> response \<times> sys" where
  "post_downloads is_url b now s =
     (case downloadRequestSchema_parse is_url b of
        Inl issues \<Rightarrow> (\<lparr>code = 400, headers = [], body = ValidationError issues\<rparr>, s)
      | Inr downloadData \<Rightarrow>
          (let (d, st') = createDownload downloadData now (storage s)
           in (\<lparr>code = 200, headers = [], body = Started (id' d)\<rparr>,
               s\<lparr>storage := st', tasks := tasks s @ [id' d]\<rparr>)))"

text \<open>
  The route parameter after \<^verbatim>\<open>parseInt\<close>: \<open>None\<close> is \<^verbatim>\<open>NaN\<close>, which is no key of
  the map.
\<close>

definition find_download :: "int option \<Rightarrow> sys \<Rightarrow> download option" where
  "find_download idp s = (case idp of None \<Rightarrow> None | Some i \<Rightarrow> getDownload i (storage s))"

text \<open>\<^verbatim>\<open>GET /api/downloads/:id\<close>.\<close>

definition get_download :: "int option \<Rightarrow> sys \<Rightarrow> response \<times> sys" where
  "get_download idp s =
     (case find_download idp s of
        None \<Rightarrow> (\<lparr>code = 404, headers = [], body = ErrorMessage ''Download not found''\<rparr>, s)
      | Some d \<Rightarrow> (\<lparr>code = 200, headers = [], body = JobJson d\<rparr>, s))"

text \<open>
  The value of the \<^verbatim>\<open>Content-Disposition\<close> header (line 84), with the fallback name for
  a null or empty file name, and the code units that \<^verbatim>\<open>setHeader\<close> accepts in a header
  value: the tab, \<^verbatim>\<open>0x20\<close> to \<^verbatim>\<open>0x7e\<close> and \<^verbatim>\<open>0x80\<close> to \<^verbatim>\<open>0xff\<close>. On any other
  code unit \<^verbatim>\<open>setHeader\<close> throws.
\<close>

definition disposition :: "jsstring option \<Rightarrow> jsstring" where
  "disposition name =
     units ''attachment; filename='' @ [34] @
     (case name of
        None \<Rightarrow> units ''download.zip''
      | Some n \<Rightarrow> if n = [] then units ''download.zip'' else n) @
     units ''.zip'' @ [34]"

definition header_unit :: "int \<Rightarrow> bool" where
  "header_unit c = (c = 9 \<or> (32 \<le> c \<and> c \<le> 126) \<or> (128 \<le> c \<and> c \<le> 255))"

text \<open>
  \<^verbatim>\<open>GET /api/downloads/:id/zip\<close>. A null or empty \<^verbatim>\<open>zipPath\<close> is falsy. When
  \<^verbatim>\<open>setHeader\<close> throws, the catch block answers 500 with the message of the error
  (\<open>invalid_header\<close>) and nothing is streamed. A served
  request opens a read stream on the archive; when the stream ends a timer of 5000 ms is
  set, and when the timer fires the file is unlinked if it still exists.
\<close>

definition not_ready :: response where
  "not_ready = \<lparr>code = 404, headers = [], body = ErrorMessage ''Download not ready''\<rparr>"

definition invalid_header :: response where
  "invalid_header =
     \<lparr>code = 500, headers = [],
      body = ErrorMessage (''Invalid character in header content ['' @ [CHR 0x22] @
                           ''Content-Disposition'' @ [CHR 0x22] @ '']'')\<rparr>"

definition get_zip :: "int option \<Rightarrow> sys \<Rightarrow> response \<times> sys" where
  "get_zip idp s =
     (case find_download idp s of
        None \<Rightarrow> (not_ready, s)
      | Some d \<Rightarrow>
          if status d \<noteq> ''completed'' then (not_ready, s)
          else (case zipPath d of
                  None \<Rightarrow> (not_ready, s)
                | Some p \<Rightarrow>
                    if p = [] then (not_ready, s)
                    else (case files s p of
                            None \<Rightarrow>
                              (\<lparr>code = 404, headers = [], body = ErrorMessage ''File not found''\<rparr>, s)
                          | Some bytes \<Rightarrow>
                              if list_all header_unit (disposition (fileName d))
                              then (\<lparr>code = 200,
                                     headers =
                                       [(''Content-Disposition'', disposition (fileName d)),
                                        (''Content-Type'', units ''application/zip'')],
                                     body = FileStream bytes\<rparr>,
                                    s\<lparr>streams := streams s @ [p]\<rparr>)
                              else (invalid_header, s))))"




section \<open>The job runner (\<^verbatim>\<open>processDownload\<close>)\<close>

text \<open>
  The arithmetic of the progress handler is that of IEEE doubles: the exact quotient or
  product is rounded to the nearest double, ties to even. For a positive rational,
  \<open>expo\<close> is the exponent of its binade, \<open>rne\<close> rounds to the nearest integer with ties
  to even, and \<open>round_double\<close> rounds to the nearest multiple of the spacing
  \<open>2^(e - 52)\<close>, where \<open>e\<close> is the exponent, not below that of the subnormal numbers.
  A rounded value of \<open>2^1024\<close> or more is infinite.
\<close>

definition expo :: "rat \<Rightarrow> int" where
  "expo x =
     (case quotient_of x of (a, b) \<Rightarrow>
        (let k = bitlen a - bitlen b in if 2 powi k \<le> x then k else k - 1))"

definition rne :: "rat \<Rightarrow> int" where
  "rne y =
     (let f = \<lfloor>y\<rfloor>; r = y - of_int f
      in if r < 1 / 2 then f else if 1 / 2 < r then f + 1 else if even f then f else f + 1)"

definition round_double :: "rat \<Rightarrow> rat" where
  "round_double x =
     (let e = max (expo x) (- 1022); u = 2 powi (e - 52) in of_int (rne (x / u)) * u)"

definition js_fl :: "rat \<Rightarrow> jsnum" where
  "js_fl x =
     (if x = 0 then Num 0
      else if 0 < x
      then (let r = round_double x in if 2 ^ 1024 \<le> r then PosInf else Num r)
      else (let r = round_double (- x) in if 2 ^ 1024 \<le> r then NegInf else Num (- r)))"

text \<open>
  Division (a finite value divided by zero is infinite, zero by zero is \<^verbatim>\<open>NaN\<close>),
  multiplication, \<^verbatim>\<open>Math.round\<close> (exact, half rounds up) and the comparison \<^verbatim>\<open><=\<close>.
\<close>

fun js_div :: "jsnum \<Rightarrow> jsnum \<Rightarrow> jsnum" where
  "js_div (Num a) (Num b) =
     (if b \<noteq> 0 then js_fl (a / b) else if 0 < a then PosInf else if a < 0 then NegInf else NaN)"
| "js_div (Num a) PosInf = Num 0"
| "js_div (Num a) NegInf = Num 0"
| "js_div PosInf (Num b) = (if 0 \<le> b then PosInf else NegInf)"
| "js_div NegInf (Num b) = (if 0 \<le> b then NegInf else PosInf)"
| "js_div x y = NaN"

fun js_mul :: "jsnum \<Rightarrow> jsnum \<Rightarrow> jsnum" where
  "js_mul (Num a) (Num b) = js_fl (a * b)"
| "js_mul NaN y = NaN"
| "js_mul x NaN = NaN"
| "js_mul (Num a) PosInf = (if 0 < a then PosInf else if a < 0 then NegInf else NaN)"
| "js_mul (Num a) NegInf = (if 0 < a then NegInf else if a < 0 then PosInf else NaN)"
| "js_mul PosInf (Num b) = (if 0 < b then PosInf else if b < 0 then NegInf else NaN)"
| "js_mul NegInf (Num b) = (if 0 < b then NegInf else if b < 0 then PosInf else NaN)"
| "js_mul PosInf PosInf = PosInf"
| "js_mul NegInf NegInf = PosInf"
| "js_mul PosInf NegInf = NegInf"
| "js_mul NegInf PosInf = NegInf"

fun js_round :: "jsnum \<Rightarrow> jsnum" where
  "js_round (Num a) = Num (of_int \<lfloor>a + 1 / 2\<rfloor>)"
| "js_round x = x"

fun js_le :: "jsnum \<Rightarrow> jsnum \<Rightarrow> bool" where
  "js_le (Num a) (Num b) = (a \<le> b)"
| "js_le NaN y = False"
| "js_le x NaN = False"
| "js_le NegInf y = True"
| "js_le x PosInf = True"
| "js_le x y = False"

text \<open>
  What the extraction library and the host give to one job. \<open>getInfo\<close> and
  \<open>chooseFormat\<close> are the library's functions (\<open>Inl\<close> is the message of the error
  thrown); \<open>progress_events\<close> are the arguments of the stream's progress events in
  order; \<open>stream_result\<close> says how the write stream ends. \<open>formatFileSize\<close> is the
  source's floating-point formatter of the archive size, whose result is only stored.
  \<open>cwd\<close> is \<^verbatim>\<open>process.cwd()\<close>, an absolute normalised path.
\<close>

record video_format =
  container :: string
  contentLength :: "string option"

record video_info =
  title :: jsstring
  formats :: "video_format list"

datatype format_filter = AudioOnly | Container string

record choose_options =
  opt_quality :: string
  opt_filter :: format_filter

text \<open>
  What archiving gives in the finish handler: \<open>Archived\<close> the bytes of the archive;
  \<open>ArchiveError\<close> the message with which \<^verbatim>\<open>createZipFile\<close> rejects (the archiver's
  error event) or \<^verbatim>\<open>statSync\<close> throws; \<open>OutputError\<close> an error event of the archive's
  output stream, which has no listener, so that the process ends there.
\<close>

datatype archive_result = Archived string | ArchiveError string | OutputError string

text \<open>
  The end of the write stream. \<open>Finish zipped cleanup\<close> is the finish event, which
  comes after all progress events; \<open>zipped\<close> is what archiving gives and \<open>cleanup\<close> is
  the error of removing the scratch directory, if any. \<open>WriteError k msg\<close> is the write
  stream's error event, fired when \<open>k\<close> of the progress events have been handled: the
  progress handler stays attached, so the remaining progress events are handled after it.
  \<open>StreamError\<close> is the source stream's error event, whose handler rethrows outside
  every try block, so that the runner does nothing further. \<open>Running\<close> is a job that
  has not ended yet. A job whose archiving fails ends with status "failed", for which the
  archive route serves nothing, so a partly written archive is not recorded in \<open>files\<close>.
\<close>

datatype stream_result =
    Finish archive_result "string option"
  | WriteError nat string
  | StreamError string
  | Running

record job_env =
  cwd :: jsstring
  getInfo :: "string \<Rightarrow> string + video_info"
  chooseFormat :: "video_format list \<Rightarrow> choose_options \<Rightarrow> string + video_format"
  progress_events :: "(jsnum \<times> jsnum \<times> jsnum) list"
  stream_result :: stream_result
  formatFileSize :: "nat \<Rightarrow> string"

text \<open>
  The effects of the runner, in program order: a write to the store, a frame handed to
  \<^verbatim>\<open>broadcastProgress\<close> (the socket server is set up before any route is registered,
  so the frame is sent to every open client), and the archive file written by
  \<^verbatim>\<open>createZipFile\<close>.
\<close>

datatype action =
    UpdateDownload int download_updates
  | BroadcastProgress frame
  | CreateZip jsstring string

fun apply_action :: "action \<Rightarrow> sys \<Rightarrow> sys" where
  "apply_action (UpdateDownload i u) s = s\<lparr>storage := snd (updateDownload i u (storage s))\<rparr>"
| "apply_action (BroadcastProgress f) s = s\<lparr>frames := frames s @ [f]\<rparr>"
| "apply_action (CreateZip p bytes) s = s\<lparr>files := (files s)(p \<mapsto> bytes)\<rparr>"

text \<open>The states after each effect.\<close>

fun perform :: "action list \<Rightarrow> sys \<Rightarrow> sys list" where
  "perform [] s = []"
| "perform (a # as) s = apply_action a s # perform as (apply_action a s)"

text \<open>
  The title with every code unit outside \<^verbatim>\<open>[\w\s-]\<close> removed, trimmed. \<^verbatim>\<open>\w\<close> is the
  ASCII letters, digits and the underscore; \<^verbatim>\<open>\s\<close> and \<^verbatim>\<open>trim\<close> take the white space
  and line terminators of JavaScript, the Unicode ones included.
\<close>

definition word_unit :: "int \<Rightarrow> bool" where
  "word_unit c =
     ((48 \<le> c \<and> c \<le> 57) \<or> (65 \<le> c \<and> c \<le> 90) \<or> c = 95 \<or> (97 \<le> c \<and> c \<le> 122))"

definition space_unit :: "int \<Rightarrow> bool" where
  "space_unit c =
     ((9 \<le> c \<and> c \<le> 13) \<or> c = 32 \<or> c = 160 \<or> c = 5760 \<or> (8192 \<le> c \<and> c \<le> 8202)
      \<or> c = 8232 \<or> c = 8233 \<or> c = 8239 \<or> c = 8287 \<or> c = 12288 \<or> c = 65279)"

definition trim :: "jsstring \<Rightarrow> jsstring" where
  "trim t = rev (dropWhile space_unit (rev (dropWhile space_unit t)))"

definition videoTitle_of :: "video_info \<Rightarrow> jsstring" where
  "videoTitle_of info =
     trim (filter (\<lambda>c. word_unit c \<or> space_unit c \<or> c = 45) (title info))"

text \<open>
  The decimal form of the id in the template strings, and \<^verbatim>\<open>path.join\<close> of a
  normalised directory and one more segment.
\<close>

fun digits :: "nat \<Rightarrow> jsstring" where
  "digits n = (if n < 10 then [48 + int n] else digits (n div 10) @ [48 + int (n mod 10)])"

definition number_string :: "int \<Rightarrow> jsstring" where
  "number_string i = (if i < 0 then 45 # digits (nat (- i)) else digits (nat i))"

definition path_join :: "jsstring \<Rightarrow> jsstring \<Rightarrow> jsstring" where
  "path_join dir segment =
     (if dir \<noteq> [] \<and> last dir = 47 then dir @ segment else dir @ [47] @ segment)"

definition zipPath_of :: "job_env \<Rightarrow> jsstring \<Rightarrow> int \<Rightarrow> jsstring" where
  "zipPath_of env videoTitle downloadId =
     path_join (path_join (cwd env) (units ''downloads''))
       (videoTitle @ units ''_'' @ number_string downloadId @ units ''.zip'')"

text \<open>Lines 135 to 149: the choice of the encoding.\<close>

definition choose_encoding ::
  "job_env \<Rightarrow> download \<Rightarrow> video_info \<Rightarrow> string + video_format" where
  "choose_encoding env d info =
     (if format d = ''mp3''
      then chooseFormat env (formats info) \<lparr>opt_quality = ''highestaudio'', opt_filter = AudioOnly\<rparr>
      else (let qualityFilter =
                  (if quality d = ''best'' then ''highest'' else remove1 CHR ''p'' (quality d))
            in if format d = ''mp4''
               then chooseFormat env (formats info)
                      \<lparr>opt_quality = qualityFilter, opt_filter = Container ''mp4''\<rparr>
               else if format d = ''webm''
               then chooseFormat env (formats info)
                      \<lparr>opt_quality = qualityFilter, opt_filter = Container ''webm''\<rparr>
               else Inl ''No suitable format found''))"

text \<open>Lines 116 to 157: everything up to the registration of the handlers.\<close>

definition prepare :: "job_env \<Rightarrow> download \<Rightarrow> string + jsstring \<times> video_format" where
  "prepare env d =
     (case getInfo env (url d) of
        Inl msg \<Rightarrow> Inl msg
      | Inr info \<Rightarrow>
          (case choose_encoding env d info of
             Inl msg \<Rightarrow> Inl msg
           | Inr fmt \<Rightarrow> Inr (videoTitle_of info, fmt)))"

text \<open>The three places that record a failure do the same two things.\<close>

definition failed :: "int \<Rightarrow> string \<Rightarrow> action list" where
  "failed downloadId msg =
     [UpdateDownload downloadId
        (no_updates\<lparr>upd_status := Some ''failed'', upd_errorMessage := Some (Some msg)\<rparr>),
      BroadcastProgress
        \<lparr>f_downloadId = downloadId, f_status = ''failed'', f_progress = None,
         f_error = Some msg\<rparr>]"

definition progress_of :: "jsnum \<Rightarrow> jsnum \<Rightarrow> jsnum" where
  "progress_of downloaded tot = js_round (js_mul (js_div downloaded tot) (Num 80))"

definition on_progress :: "int \<Rightarrow> jsnum \<times> jsnum \<times> jsnum \<Rightarrow> action list" where
  "on_progress downloadId ev =
     (case ev of (chunkLength, downloaded, tot) \<Rightarrow>
        [BroadcastProgress
           \<lparr>f_downloadId = downloadId, f_status = ''downloading'',
            f_progress = Some (progress_of downloaded tot), f_error = None\<rparr>])"

definition on_finish ::
  "job_env \<Rightarrow> int \<Rightarrow> jsstring \<Rightarrow> archive_result \<Rightarrow> string option \<Rightarrow> action list" where
  "on_finish env downloadId videoTitle zipped cleanup =
     BroadcastProgress
       \<lparr>f_downloadId = downloadId, f_status = ''creating_zip'', f_progress = Some (Num 90),
        f_error = None\<rparr> #
     (case zipped of
        ArchiveError msg \<Rightarrow> failed downloadId msg
      | OutputError msg \<Rightarrow> []
      | Archived bytes \<Rightarrow>
          [CreateZip (zipPath_of env videoTitle downloadId) bytes,
           UpdateDownload downloadId
             (no_updates
                \<lparr>upd_status := Some ''completed'',
                 upd_progress := Some (Some 100),
                 upd_fileName := Some (Some videoTitle),
                 upd_fileSize := Some (Some (formatFileSize env (length bytes))),
                 upd_zipPath := Some (Some (zipPath_of env videoTitle downloadId))\<rparr>),
           BroadcastProgress
             \<lparr>f_downloadId = downloadId, f_status = ''completed'', f_progress = Some (Num 100),
              f_error = None\<rparr>] @
          (case cleanup of None \<Rightarrow> [] | Some msg \<Rightarrow> failed downloadId msg))"

definition processDownload :: "job_env \<Rightarrow> int \<Rightarrow> sys \<Rightarrow> action list" where
  "processDownload env downloadId s =
     (case getDownload downloadId (storage s) of
        None \<Rightarrow> []
      | Some d \<Rightarrow>
          [UpdateDownload downloadId (no_updates\<lparr>upd_status := Some ''downloading''\<rparr>),
           BroadcastProgress
             \<lparr>f_downloadId = downloadId, f_status = ''downloading'', f_progress = Some (Num 0),
              f_error = None\<rparr>] @
          (case prepare env d of
             Inl msg \<Rightarrow> failed downloadId msg
           | Inr (videoTitle, fmt) \<Rightarrow>
               (case stream_result env of
                  Finish zipped cleanup \<Rightarrow>
                    concat (map (on_progress downloadId) (progress_events env)) @
                    on_finish env downloadId videoTitle zipped cleanup
                | WriteError k msg \<Rightarrow>
                    concat (map (on_progress downloadId) (take k (progress_events env))) @
                    failed downloadId msg @
                    concat (map (on_progress downloadId) (drop k (progress_events env)))
                | StreamError msg \<Rightarrow>
                    concat (map (on_progress downloadId) (progress_events env))
                | Running \<Rightarrow>
                    concat (map (on_progress downloadId) (progress_events env)))))"

text \<open>
  The life of one job: the record is created in state \<open>s\<close> and its runner runs. The
  trace lists the server states from the creation on, one per effect of the runner. (The
  routes and the runners of other jobs never write this job's record, so their steps are
  not part of the trace.)
\<close>

definition job_trace :: "job_env \<Rightarrow> insert_download \<Rightarrow> nat \<Rightarrow> sys \<Rightarrow> sys list" where
  "job_trace env ins now s =
     (let s1 = s\<lparr>storage := snd (createDownload ins now (storage s))\<rparr>
      in s1 # perform (processDownload env (currentDownloadId (storage s)) s1) s1)"


definition stored_progress :: "int \<Rightarrow> sys list \<Rightarrow> int list" where
  "stored_progress jid tr =
     List.map_filter (\<lambda>s. case downloads (storage s) jid of None \<Rightarrow> None | Some d \<Rightarrow> progress d) tr"

text \<open>The frames that the job's run pushed: those of the last state beyond those of \<open>s\<close>.\<close>

definition pushed :: "job_env \<Rightarrow> insert_download \<Rightarrow> nat \<Rightarrow> sys \<Rightarrow> frame list" where
  "pushed env ins now s = drop (length (frames s)) (frames (last (job_trace env ins now s)))"

definition pushed_progress :: "job_env \<Rightarrow> insert_download \<Rightarrow> nat \<Rightarrow> sys \<Rightarrow> jsnum list" where
  "pushed_progress env ins now s = List.map_filter f_progress (pushed env ins now s)"

text \<open>
  The order of the status values (any other text counts as last), and a step of a status
  sequence that follows it: the status stays, or moves on from a status that is neither
  "completed" nor "failed", forward in the order or to "failed".
\<close>

definition status_rank :: "string \<Rightarrow> nat" where
  "status_rank x =
     (if x = ''pending'' then 0
      else if x = ''downloading'' then 1
      else if x = ''creating_zip'' then 2
      else if x = ''completed'' then 3
      else 4)"

definition forward :: "string \<Rightarrow> string \<Rightarrow> bool" where
  "forward a b =
     (a = b \<or> (a \<noteq> ''completed'' \<and> a \<noteq> ''failed''
                \<and> (b = ''failed'' \<or> status_rank a < status_rank b)))"








section \<open>Reading the runner's effects off the list\<close>

text \<open>
  The successive values of the record of job \<open>jid\<close>, starting from \<open>d\<close>, one per
  effect, and the frames that a list of effects pushes.
\<close>

fun records :: "int \<Rightarrow> download \<Rightarrow> action list \<Rightarrow> download list" where
  "records jid d [] = []"
| "records jid d (UpdateDownload i u # as) =
     (if i = jid then spread d u # records jid (spread d u) as else d # records jid d as)"
| "records jid d (BroadcastProgress f # as) = d # records jid d as"
| "records jid d (CreateZip p bytes # as) = d # records jid d as"

fun broadcasts :: "action list \<Rightarrow> frame list" where
  "broadcasts [] = []"
| "broadcasts (BroadcastProgress f # as) = f # broadcasts as"
| "broadcasts (a # as) = broadcasts as"


text \<open>
  The double nearest to a rational that is not negative and not near the overflow
  threshold, and the value of the progress handler's expression on byte counts.
\<close>

definition double_of :: "rat \<Rightarrow> rat" where
  "double_of x = (if x = 0 then 0 else round_double x)"

definition percent :: "nat \<Rightarrow> nat \<Rightarrow> int" where
  "percent d T = \<lfloor>double_of (double_of (of_nat d / of_nat T) * 80) + 1 / 2\<rfloor>"

definition fresh :: "insert_download \<Rightarrow> nat \<Rightarrow> sys \<Rightarrow> download" where
  "fresh ins now s = fst (createDownload ins now (storage s))"

text \<open>
  Progress events as the library is meant to send them: byte counts \<open>(chunk, downloaded)\<close>
  against one total \<open>T\<close>.
\<close>

definition byte_reports :: "nat \<Rightarrow> (nat \<times> nat) list \<Rightarrow> (jsnum \<times> jsnum \<times> jsnum) list" where
  "byte_reports T cds = map (\<lambda>(c, d). (Num (of_nat c), Num (of_nat d), Num (of_nat T))) cds"

definition in_range :: "jsnum \<Rightarrow> bool" where
  "in_range p = (js_le (Num 0) p \<and> js_le p (Num 100))"

text \<open>Concrete inputs for the examples below.\<close>

definition demo_insert :: insert_download where
  "demo_insert =
     \<lparr>ins_url = ''https://www.youtube.com/watch?v=abc123'', ins_format = ''mp3'',
      ins_quality = ''best''\<rparr>"

definition demo_body :: request_body where
  "demo_body =
     \<lparr>b_url = Some ''https://www.youtube.com/watch?v=abc123'', b_format = Some ''mp3'',
      b_quality = Some ''best''\<rparr>"

definition demo_format :: video_format where
  "demo_format = \<lparr>container = ''webm'', contentLength = Some ''2000''\<rparr>"

definition demo_env :: "(jsnum \<times> jsnum \<times> jsnum) list \<Rightarrow> job_env" where
  "demo_env evs =
     \<lparr>cwd = units ''/srv'',
      getInfo = (\<lambda>u. Inr \<lparr>title = units ''My clip!'', formats = [demo_format]\<rparr>),
      chooseFormat = (\<lambda>fs opts. Inr demo_format),
      progress_events = evs,
      stream_result = Finish (Archived ''PK'') None,
      formatFileSize = (\<lambda>n. ''2 Bytes'')\<rparr>"





section \<open>Store: creation, ids, update (claims C5, C8, C10)\<close>

lemma calls_ids_from:
  "map id' (fst (calls cs st)) =
     map (\<lambda>k. currentDownloadId st + int k) [0..<length (fst (calls cs st))]"
proof (induction cs st rule: calls.induct)
  case (1 st)
  show ?case by simp
next
  case (2 ins now cs st)
  obtain d st' where c: "createDownload ins now st = (d, st')"
    by (cases "createDownload ins now st")
  obtain ds st'' where r: "calls cs st' = (ds, st'')"
    by (cases "calls cs st'")
  from c have d: "id' d = currentDownloadId st" and n: "currentDownloadId st' = currentDownloadId st + 1"
    by (auto simp: createDownload_def Let_def)
  have "map id' ds = map (\<lambda>k. currentDownloadId st' + int k) [0..<length ds]"
    using "2.IH" [OF c [symmetric] refl] r by simp
  then have "map id' ds = map (\<lambda>k. currentDownloadId st + int (Suc k)) [0..<length ds]"
    by (simp add: n)
  then have "map id' (d # ds) = map (\<lambda>k. currentDownloadId st + int k) [0..<Suc (length ds)]"
    unfolding upt_conv_Cons [OF zero_less_Suc] map_Suc_upt [symmetric] by (simp add: d)
  then show ?case by (simp add: c r)
next
  case (3 i u cs st)
  have "currentDownloadId (snd (updateDownload i u st)) = currentDownloadId st"
    by (simp add: updateDownload_def Let_def split: option.splits)
  with "3.IH" show ?case by simp
qed

text \<open>
  Claim C5. The record returned by \<^verbatim>\<open>createDownload\<close>, which is also the record stored
  under its id, has status "pending", progress 0, null file name, file size, archive path
  and error message, the submitted URL, format and quality, and the creation time.
\<close>

theorem createDownload_initial:
  "fst (createDownload ins now st) =
     \<lparr>id' = currentDownloadId st, url = ins_url ins, format = ins_format ins,
      quality = ins_quality ins, status = ''pending'', progress = Some 0,
      fileName = None, fileSize = None, zipPath = None, errorMessage = None,
      createdAt = Some now\<rparr>
   \<and> getDownload (id' (fst (createDownload ins now st))) (snd (createDownload ins now st))
       = Some (fst (createDownload ins now st))"
  by (simp add: createDownload_def getDownload_def Let_def)

text \<open>
  Claim C8. Over any sequence of store calls from the empty store, the ids handed out by
  \<^verbatim>\<open>createDownload\<close> are strictly increasing in creation order, so no two created
  jobs share an id.
\<close>

theorem created_ids_increasing:
  "sorted_wrt (<) (map id' (fst (calls cs MemStorage)))
   \<and> distinct (map id' (fst (calls cs MemStorage)))"
proof -
  have inc: "sorted_wrt (<) (map (\<lambda>k. c + int k) [0..<n])" for c :: int and n
    by (simp add: sorted_wrt_map sorted_wrt_iff_nth_less)
  have s: "sorted_wrt (<) (map id' (fst (calls cs MemStorage)))"
    by (subst calls_ids_from) (rule inc)
  have "distinct (map (\<lambda>k. c + int k) [0..<n])" for c :: int and n
    by (simp add: distinct_map inj_on_def)
  then have "distinct (map id' (fst (calls cs MemStorage)))"
    by (subst calls_ids_from)
  with s show ?thesis by simp
qed


text \<open>
  Claim C10. \<^verbatim>\<open>updateDownload\<close> on an id that is not in the store returns undefined and
  leaves the store as it is. On an id that is in the store it returns and stores the old
  record overridden by the update: the entries of all other ids and the id counter are
  unchanged, every field that the update does not name keeps its value, and a field that
  it names takes the given value.
\<close>

theorem updateDownload_frame:
  "(downloads st i = None \<longrightarrow> updateDownload i u st = (None, st))
   \<and> (\<forall>d. downloads st i = Some d \<longrightarrow>
        fst (updateDownload i u st) = Some (spread d u)
        \<and> downloads (snd (updateDownload i u st)) i = Some (spread d u)
        \<and> (\<forall>j. j \<noteq> i \<longrightarrow> downloads (snd (updateDownload i u st)) j = downloads st j)
        \<and> currentDownloadId (snd (updateDownload i u st)) = currentDownloadId st
        \<and> (upd_id u = None \<longrightarrow> id' (spread d u) = id' d)
        \<and> (upd_url u = None \<longrightarrow> url (spread d u) = url d)
        \<and> (upd_format u = None \<longrightarrow> format (spread d u) = format d)
        \<and> (upd_quality u = None \<longrightarrow> quality (spread d u) = quality d)
        \<and> (upd_status u = None \<longrightarrow> status (spread d u) = status d)
        \<and> (upd_progress u = None \<longrightarrow> progress (spread d u) = progress d)
        \<and> (upd_fileName u = None \<longrightarrow> fileName (spread d u) = fileName d)
        \<and> (upd_fileSize u = None \<longrightarrow> fileSize (spread d u) = fileSize d)
        \<and> (upd_zipPath u = None \<longrightarrow> zipPath (spread d u) = zipPath d)
        \<and> (upd_errorMessage u = None \<longrightarrow> errorMessage (spread d u) = errorMessage d)
        \<and> (upd_createdAt u = None \<longrightarrow> createdAt (spread d u) = createdAt d)
        \<and> (\<forall>v. upd_status u = Some v \<longrightarrow> status (spread d u) = v)
        \<and> (\<forall>v. upd_progress u = Some v \<longrightarrow> progress (spread d u) = v)
        \<and> (\<forall>v. upd_fileName u = Some v \<longrightarrow> fileName (spread d u) = v)
        \<and> (\<forall>v. upd_fileSize u = Some v \<longrightarrow> fileSize (spread d u) = v)
        \<and> (\<forall>v. upd_zipPath u = Some v \<longrightarrow> zipPath (spread d u) = v)
        \<and> (\<forall>v. upd_errorMessage u = Some v \<longrightarrow> errorMessage (spread d u) = v))"
  by (simp add: updateDownload_def spread_def override_def Let_def)

theorem updateDownload_frame_witness:
  "updateDownload 7 (no_updates\<lparr>upd_status := Some ''failed''\<rparr>) MemStorage = (None, MemStorage)
   \<and> map_option status
        (fst (updateDownload 1 (no_updates\<lparr>upd_status := Some ''downloading''\<rparr>)
               (snd (createDownload demo_insert 5 MemStorage)))) = Some ''downloading''
   \<and> map_option url
        (fst (updateDownload 1 (no_updates\<lparr>upd_status := Some ''downloading''\<rparr>)
               (snd (createDownload demo_insert 5 MemStorage))))
       = Some ''https://www.youtube.com/watch?v=abc123''
   \<and> map_option createdAt
        (fst (updateDownload 1 (no_updates\<lparr>upd_status := Some ''downloading''\<rparr>)
               (snd (createDownload demo_insert 5 MemStorage)))) = Some (Some 5)"
  using updateDownload_frame [of MemStorage 7 "no_updates\<lparr>upd_status := Some ''failed''\<rparr>"]
    updateDownload_frame [of "snd (createDownload demo_insert 5 MemStorage)" 1
      "no_updates\<lparr>upd_status := Some ''downloading''\<rparr>"]
  by (simp add: MemStorage_def createDownload_def no_updates_def demo_insert_def spread_def
      override_def Let_def)


section \<open>The HTTP surface (claims C2, C4, C9)\<close>

lemma youtube_url_examples:
  "youtube_url ''https://www.youtube.com/watch?v=abc123''"
  "youtube_url ''http://youtube.com/embed/a-b_c''"
  "youtube_url ''https://youtu.be/x?t=1''"
  "\<not> youtube_url ''https://www.youtube.com/watch?v=''"
  "\<not> youtube_url ''https://m.youtube.com/watch?v=abc123''"
  "\<not> youtube_url ''ftp://youtu.be/abc''"
  by (simp_all add: youtube_url_def patterns_def word_or_dash_def word_char_def)

lemma parse_Inr_iff:
  "(\<exists>d. downloadRequestSchema_parse is_url b = Inr d) \<longleftrightarrow>
     (\<exists>u f q. b_url b = Some u \<and> b_format b = Some f \<and> b_quality b = Some q
        \<and> is_url u \<and> youtube_url u \<and> f \<in> set formats_enum \<and> q \<in> set qualities_enum)"
  by (auto simp: downloadRequestSchema_parse_def url_issues_def enum_issues_def Let_def
      split: option.splits list.splits if_splits)

lemma parse_Inr_data:
  "downloadRequestSchema_parse is_url b = Inr d \<Longrightarrow>
     b_url b = Some (ins_url d) \<and> b_format b = Some (ins_format d)
     \<and> b_quality b = Some (ins_quality d)"
  by (auto simp: downloadRequestSchema_parse_def Let_def split: option.splits list.splits)

text \<open>
  Claim C2. A body whose URL matches none of the three patterns, or whose format or
  quality is outside its enumeration (or is missing), fails validation; whenever
  validation fails the response is 400 with the validation error and the server state,
  hence the store, is unchanged. Whenever validation passes, a job record is created
  under a new id with the submitted values, and the response carries that id with status
  "started".
\<close>

theorem post_downloads_validation:
  "((\<forall>u. b_url b = Some u \<longrightarrow> \<not> youtube_url u)
      \<or> (\<forall>f. b_format b = Some f \<longrightarrow> f \<notin> set formats_enum)
      \<or> (\<forall>q. b_quality b = Some q \<longrightarrow> q \<notin> set qualities_enum)
     \<longrightarrow> (\<exists>issues. downloadRequestSchema_parse is_url b = Inl issues))
   \<and> (\<forall>issues. downloadRequestSchema_parse is_url b = Inl issues \<longrightarrow>
         post_downloads is_url b now s =
           (\<lparr>code = 400, headers = [], body = ValidationError issues\<rparr>, s))
   \<and> (\<forall>d. downloadRequestSchema_parse is_url b = Inr d \<longrightarrow>
         fst (post_downloads is_url b now s) =
           \<lparr>code = 200, headers = [], body = Started (currentDownloadId (storage s))\<rparr>
         \<and> getDownload (currentDownloadId (storage s)) (storage (snd (post_downloads is_url b now s)))
             = Some (fst (createDownload d now (storage s)))
         \<and> b_url b = Some (ins_url d) \<and> b_format b = Some (ins_format d)
         \<and> b_quality b = Some (ins_quality d))"
proof (intro conjI allI impI)
  assume bad: "(\<forall>u. b_url b = Some u \<longrightarrow> \<not> youtube_url u)
      \<or> (\<forall>f. b_format b = Some f \<longrightarrow> f \<notin> set formats_enum)
      \<or> (\<forall>q. b_quality b = Some q \<longrightarrow> q \<notin> set qualities_enum)"
  have "\<not> (\<exists>d. downloadRequestSchema_parse is_url b = Inr d)"
    unfolding parse_Inr_iff using bad by auto
  then show "\<exists>issues. downloadRequestSchema_parse is_url b = Inl issues"
    by (cases "downloadRequestSchema_parse is_url b") auto
next
  fix issues
  assume "downloadRequestSchema_parse is_url b = Inl issues"
  then show "post_downloads is_url b now s =
           (\<lparr>code = 400, headers = [], body = ValidationError issues\<rparr>, s)"
    by (simp add: post_downloads_def)
next
  fix d
  assume p: "downloadRequestSchema_parse is_url b = Inr d"
  show "fst (post_downloads is_url b now s) =
           \<lparr>code = 200, headers = [], body = Started (currentDownloadId (storage s))\<rparr>"
    using p by (simp add: post_downloads_def createDownload_def Let_def)
  show "getDownload (currentDownloadId (storage s)) (storage (snd (post_downloads is_url b now s)))
             = Some (fst (createDownload d now (storage s)))"
    using p by (simp add: post_downloads_def createDownload_def getDownload_def Let_def)
  show "b_url b = Some (ins_url d)" "b_format b = Some (ins_format d)"
    "b_quality b = Some (ins_quality d)"
    using parse_Inr_data [OF p] by simp_all
qed


theorem post_downloads_validation_witness:
  "post_downloads (\<lambda>u. True)
      \<lparr>b_url = Some ''https://example.com/watch?v=abc123'', b_format = Some ''mp3'',
       b_quality = Some ''best''\<rparr> 5 boot
     = (\<lparr>code = 400, headers = [],
         body = ValidationError [Custom ''Must be a valid YouTube URL'']\<rparr>, boot)
   \<and> fst (post_downloads (\<lambda>u. True) demo_body 5 boot)
       = \<lparr>code = 200, headers = [], body = Started 1\<rparr>
   \<and> map_option status
         (getDownload 1 (storage (snd (post_downloads (\<lambda>u. True) demo_body 5 boot))))
       = Some ''pending''"
proof -
  have y: "youtube_url ''https://www.youtube.com/watch?v=abc123''"
    by (simp add: youtube_url_def patterns_def word_or_dash_def word_char_def)
  have n: "\<not> youtube_url ''https://example.com/watch?v=abc123''"
    by (simp add: youtube_url_def patterns_def)
  have bad: "downloadRequestSchema_parse (\<lambda>u. True)
      \<lparr>b_url = Some ''https://example.com/watch?v=abc123'', b_format = Some ''mp3'',
       b_quality = Some ''best''\<rparr> = Inl [Custom ''Must be a valid YouTube URL'']"
    using n by (simp add: downloadRequestSchema_parse_def url_issues_def enum_issues_def
        formats_enum_def qualities_enum_def)
  have good: "downloadRequestSchema_parse (\<lambda>u. True) demo_body = Inr demo_insert"
    using y by (simp add: downloadRequestSchema_parse_def url_issues_def enum_issues_def
        formats_enum_def qualities_enum_def demo_body_def demo_insert_def)
  show ?thesis
    using bad good
      post_downloads_validation [of
        "\<lparr>b_url = Some ''https://example.com/watch?v=abc123'', b_format = Some ''mp3'',
          b_quality = Some ''best''\<rparr>" "\<lambda>u. True" 5 boot]
      post_downloads_validation [of demo_body "\<lambda>u. True" 5 boot]
    by (simp add: boot_def MemStorage_def createDownload_def Let_def)
qed

text \<open>
  Claim C9. The status route answers with the stored record whenever the requested id is
  a key of the store, and with 404 otherwise (an id that is not a number included); it
  never changes the state.
\<close>

theorem get_download_found_or_404:
  "(\<forall>i d. idp = Some i \<and> downloads (storage s) i = Some d \<longrightarrow>
       get_download idp s = (\<lparr>code = 200, headers = [], body = JobJson d\<rparr>, s))
   \<and> (idp = None \<or> (\<exists>i. idp = Some i \<and> downloads (storage s) i = None) \<longrightarrow>
       get_download idp s =
         (\<lparr>code = 404, headers = [], body = ErrorMessage ''Download not found''\<rparr>, s))"
  by (auto simp: get_download_def find_download_def getDownload_def)

theorem get_download_found_or_404_witness:
  "code (fst (get_download (Some 1) (snd (post_downloads (\<lambda>u. True) demo_body 5 boot)))) = 200
   \<and> body (fst (get_download (Some 1) (snd (post_downloads (\<lambda>u. True) demo_body 5 boot))))
       = JobJson (fst (createDownload demo_insert 5 MemStorage))
   \<and> code (fst (get_download (Some 2) (snd (post_downloads (\<lambda>u. True) demo_body 5 boot)))) = 404
   \<and> code (fst (get_download None boot)) = 404"
proof -
  have y: "youtube_url ''https://www.youtube.com/watch?v=abc123''"
    by (simp add: youtube_url_def patterns_def word_or_dash_def word_char_def)
  have good: "downloadRequestSchema_parse (\<lambda>u. True) demo_body = Inr demo_insert"
    using y by (simp add: downloadRequestSchema_parse_def url_issues_def enum_issues_def
        formats_enum_def qualities_enum_def demo_body_def demo_insert_def)
  let ?s = "snd (post_downloads (\<lambda>u. True) demo_body 5 boot)"
  have d1: "downloads (storage ?s) 1 = Some (fst (createDownload demo_insert 5 MemStorage))"
    and d2: "downloads (storage ?s) 2 = None"
    using good by (simp_all add: post_downloads_def boot_def MemStorage_def createDownload_def Let_def)
  show ?thesis
    using d1 d2 get_download_found_or_404 [of "Some 1" ?s] get_download_found_or_404 [of "Some 2" ?s]
      get_download_found_or_404 [of None boot]
    by simp
qed

text \<open>
  Claim C4. When the job of the requested id does not exist (or the id is not a number),
  or its status is not "completed", or it has no archive path, the archive route answers
  404, streams nothing, and leaves the state, files included, as it is.
\<close>

theorem get_zip_not_ready:
  "(\<forall>i d. idp = Some i \<and> downloads (storage s) i = Some d \<longrightarrow>
        status d \<noteq> ''completed'' \<or> zipPath d = None)
   \<longrightarrow> get_zip idp s =
         (\<lparr>code = 404, headers = [], body = ErrorMessage ''Download not ready''\<rparr>, s)
       \<and> (\<forall>bytes. body (fst (get_zip idp s)) \<noteq> FileStream bytes)"
  by (auto simp: get_zip_def find_download_def getDownload_def not_ready_def
      split: option.splits)

theorem get_zip_not_ready_witness:
  "code (fst (get_zip (Some 1) (snd (post_downloads (\<lambda>u. True) demo_body 5 boot)))) = 404
   \<and> snd (get_zip (Some 1) (snd (post_downloads (\<lambda>u. True) demo_body 5 boot)))
       = snd (post_downloads (\<lambda>u. True) demo_body 5 boot)
   \<and> code (fst (get_zip (Some 9) boot)) = 404
   \<and> code (fst (get_zip None boot)) = 404"
proof -
  have y: "youtube_url ''https://www.youtube.com/watch?v=abc123''"
    by (simp add: youtube_url_def patterns_def word_or_dash_def word_char_def)
  have good: "downloadRequestSchema_parse (\<lambda>u. True) demo_body = Inr demo_insert"
    using y by (simp add: downloadRequestSchema_parse_def url_issues_def enum_issues_def
        formats_enum_def qualities_enum_def demo_body_def demo_insert_def)
  let ?s = "snd (post_downloads (\<lambda>u. True) demo_body 5 boot)"
  have d1: "downloads (storage ?s) 1 = Some (fst (createDownload demo_insert 5 MemStorage))"
    using good by (simp add: post_downloads_def boot_def MemStorage_def createDownload_def Let_def)
  have p: "status (fst (createDownload demo_insert 5 MemStorage)) = ''pending''"
    by (simp add: createDownload_def Let_def)
  have b: "downloads (storage boot) 9 = None"
    by (simp add: boot_def MemStorage_def)
  show ?thesis
    using d1 p b get_zip_not_ready [of "Some 1" ?s] get_zip_not_ready [of "Some 9" boot]
      get_zip_not_ready [of None boot]
    by simp
qed


section \<open>The arithmetic of doubles\<close>

lemma int_bits:
  fixes a :: int
  assumes "0 < a"
  shows "(2::rat) powi (bitlen a - 1) \<le> of_int a" and "of_int a < (2::rat) powi bitlen a"
proof -
  from assms have l: "1 \<le> bitlen a"
    using bitlen_eq_zero_iff [of a] bitlen_nonneg [of a] by linarith
  from bitlen_bounds [OF assms] have lo: "2 ^ nat (bitlen a - 1) \<le> a" and hi: "a < 2 ^ nat (bitlen a)"
    by blast+
  from lo have "(of_int (2 ^ nat (bitlen a - 1)) :: rat) \<le> of_int a"
    by (simp only: of_int_le_iff)
  then show "(2::rat) powi (bitlen a - 1) \<le> of_int a"
    using l by (simp add: power_int_nonneg_exp)
  from hi have "(of_int a :: rat) < of_int (2 ^ nat (bitlen a))"
    by (simp only: of_int_less_iff)
  then show "of_int a < (2::rat) powi bitlen a"
    using l by (simp add: power_int_nonneg_exp)
qed

lemma expo_bounds:
  assumes "0 < x"
  shows "2 powi expo x \<le> x" and "x < 2 powi (expo x + 1)"
proof -
  obtain a b where q: "quotient_of x = (a, b)" by (cases "quotient_of x")
  then have b: "0 < b" and x: "x = of_int a / of_int b"
    by (simp_all add: quotient_of_denom_pos quotient_of_div)
  from assms b x have a: "0 < a"
    by (simp add: zero_less_divide_iff)
  define k where "k = bitlen a - bitlen b"
  have bpos: "(0::rat) < of_int b" using b by simp
  have p1: "(0::rat) < 2 powi (bitlen b - 1)" and p2: "(0::rat) < 2 powi bitlen b" by simp_all
  have "x < 2 powi bitlen a / 2 powi (bitlen b - 1)"
    unfolding x using int_bits [OF a] int_bits [OF b] a p1
    by (intro frac_less) simp_all
  also have "\<dots> = 2 powi (k + 1)"
    by (simp add: k_def power_int_diff [symmetric] algebra_simps)
  finally have up: "x < 2 powi (k + 1)" .
  have "2 powi (bitlen a - 1) / 2 powi bitlen b < x"
    unfolding x using int_bits [OF a] int_bits [OF b] bpos p2
    by (intro frac_less2) simp_all
  moreover have "2 powi (bitlen a - 1) / (2::rat) powi bitlen b = 2 powi (k - 1)"
    by (simp add: k_def power_int_diff [symmetric] algebra_simps)
  ultimately have lo: "2 powi (k - 1) < x" by simp
  have e: "expo x = (if 2 powi k \<le> x then k else k - 1)"
    by (simp add: expo_def q k_def Let_def)
  show "2 powi expo x \<le> x"
    using lo by (simp add: e)
  show "x < 2 powi (expo x + 1)"
    using up by (simp add: e)
qed

lemma expo_unique:
  assumes "2 powi e \<le> x" and "x < 2 powi (e + 1)"
  shows "expo x = e"
proof -
  have "(0::rat) < 2 powi e" by simp
  with assms(1) have x: "0 < x" by linarith
  note b = expo_bounds [OF x]
  have "\<not> expo x < e"
  proof
    assume "expo x < e"
    then have "expo x + 1 \<le> e" by simp
    then have "(2::rat) powi (expo x + 1) \<le> 2 powi e"
      by (intro power_int_increasing) simp_all
    with b(2) assms(1) show False by linarith
  qed
  moreover have "\<not> e < expo x"
  proof
    assume "e < expo x"
    then have "e + 1 \<le> expo x" by simp
    then have "(2::rat) powi (e + 1) \<le> 2 powi expo x"
      by (intro power_int_increasing) simp_all
    with b(1) assms(2) show False by linarith
  qed
  ultimately show ?thesis by linarith
qed

lemma expo_mono:
  assumes "0 < x" and "x \<le> y"
  shows "expo x \<le> expo y"
proof (rule ccontr)
  assume "\<not> expo x \<le> expo y"
  then have "expo y + 1 \<le> expo x" by simp
  then have "(2::rat) powi (expo y + 1) \<le> 2 powi expo x"
    by (intro power_int_increasing) simp_all
  moreover from assms have y: "0 < y" by linarith
  ultimately show False
    using expo_bounds(1) [OF assms(1)] expo_bounds(2) [OF y] assms(2) by linarith
qed

lemma rne_of_int: "rne (of_int n) = n"
  by (simp add: rne_def)

lemma rne_floor: "\<lfloor>y\<rfloor> \<le> rne y" and rne_ceil: "rne y \<le> \<lfloor>y\<rfloor> + 1"
  by (simp_all add: rne_def Let_def)

lemma rne_mono:
  assumes "x \<le> y"
  shows "rne x \<le> rne y"
proof (cases "\<lfloor>x\<rfloor> = \<lfloor>y\<rfloor>")
  case True
  with assms have "x - of_int \<lfloor>x\<rfloor> \<le> y - of_int \<lfloor>y\<rfloor>" by simp
  with True show ?thesis
    by (auto simp: rne_def Let_def)
next
  case False
  with assms have "\<lfloor>x\<rfloor> < \<lfloor>y\<rfloor>"
    using floor_mono [OF assms] by linarith
  then have "rne x \<le> \<lfloor>y\<rfloor>"
    using rne_ceil [of x] by linarith
  with rne_floor [of y] show ?thesis by linarith
qed

lemma rne_error: "\<bar>of_int (rne y) - y\<bar> \<le> 1 / 2"
proof -
  have "of_int \<lfloor>y\<rfloor> \<le> y" and "y < of_int \<lfloor>y\<rfloor> + 1"
    by linarith+
  then show ?thesis
    by (auto simp: rne_def Let_def abs_le_iff)
qed


lemma round_double_eq:
  "round_double x =
     of_int (rne (x / 2 powi (max (expo x) (- 1022) - 52))) * 2 powi (max (expo x) (- 1022) - 52)"
  by (simp add: round_double_def Let_def)

lemma two_powi_split: "(2::rat) powi (e + 1) = 2 ^ 53 * 2 powi (e - 52)"
proof -
  have a: "(2::rat) powi (53 + (e - 52)) = 2 powi 53 * 2 powi (e - 52)"
    by (rule power_int_add) simp
  have b: "53 + (e - 52) = e + 1" by simp
  show ?thesis using a unfolding b by simp
qed

lemma two_powi_split': "(2::rat) powi e = 2 ^ 52 * 2 powi (e - 52)"
proof -
  have a: "(2::rat) powi (52 + (e - 52)) = 2 powi 52 * 2 powi (e - 52)"
    by (rule power_int_add) simp
  have b: "52 + (e - 52) = e" by simp
  show ?thesis using a unfolding b by simp
qed

lemma round_double_upper:
  assumes "0 < x"
  shows "round_double x \<le> 2 powi (max (expo x) (- 1022) + 1)"
proof -
  define e where "e = max (expo x) (- 1022)"
  define u :: rat where "u = 2 powi (e - 52)"
  have u: "0 < u" by (simp add: u_def)
  have s: "2 powi (e + 1) = 2 ^ 53 * u" unfolding u_def by (rule two_powi_split)
  have "x < 2 powi (expo x + 1)" by (rule expo_bounds(2) [OF assms])
  also have "\<dots> \<le> 2 powi (e + 1)"
    by (intro power_int_increasing) (simp_all add: e_def)
  finally have "x \<le> 2 ^ 53 * u" unfolding s by simp
  then have "x / u \<le> of_int (2 ^ 53)"
    using u by (simp add: pos_divide_le_eq)
  from rne_mono [OF this] have "rne (x / u) \<le> 2 ^ 53"
    by (simp only: rne_of_int)
  then have "(of_int (rne (x / u)) :: rat) \<le> of_int (2 ^ 53)"
    by (simp only: of_int_le_iff)
  then have "of_int (rne (x / u)) * u \<le> of_int (2 ^ 53) * u"
    using u by (intro mult_right_mono) simp_all
  then have "of_int (rne (x / u)) * u \<le> 2 powi (e + 1)"
    unfolding s by simp
  then show ?thesis
    unfolding round_double_eq e_def u_def .
qed

lemma round_double_lower:
  assumes "0 < x" and "- 1022 \<le> expo x"
  shows "2 powi expo x \<le> round_double x"
proof -
  have m: "max (expo x) (- 1022) = expo x" using assms(2) by simp
  define u :: rat where "u = 2 powi (expo x - 52)"
  have u: "0 < u" by (simp add: u_def)
  have s: "2 powi expo x = 2 ^ 52 * u" unfolding u_def by (rule two_powi_split')
  then have "2 ^ 52 * u \<le> x" using expo_bounds(1) [OF assms(1)] by simp
  then have "of_int (2 ^ 52) \<le> x / u"
    using u by (simp add: pos_le_divide_eq)
  from rne_mono [OF this] have "2 ^ 52 \<le> rne (x / u)"
    by (simp only: rne_of_int)
  then have "(of_int (2 ^ 52) :: rat) \<le> of_int (rne (x / u))"
    by (simp only: of_int_le_iff)
  then have "of_int (2 ^ 52) * u \<le> of_int (rne (x / u)) * u"
    using u by (intro mult_right_mono) simp_all
  then have "2 powi expo x \<le> of_int (rne (x / u)) * u"
    unfolding s by simp
  then show ?thesis
    unfolding round_double_eq m u_def .
qed

lemma round_double_nonneg:
  assumes "0 < x"
  shows "0 \<le> round_double x"
proof -
  have "(0::rat) \<le> x / 2 powi (max (expo x) (- 1022) - 52)"
    using assms by simp
  then have "0 \<le> \<lfloor>x / 2 powi (max (expo x) (- 1022) - 52)\<rfloor>" by simp
  with rne_floor [of "x / 2 powi (max (expo x) (- 1022) - 52)"]
  have "0 \<le> rne (x / 2 powi (max (expo x) (- 1022) - 52))" by linarith
  then show ?thesis
    unfolding round_double_eq by simp
qed

lemma round_double_mono:
  assumes "0 < x" and "x \<le> y"
  shows "round_double x \<le> round_double y"
proof -
  from assms have y: "0 < y" by linarith
  define ex where "ex = max (expo x) (- 1022)"
  define ey where "ey = max (expo y) (- 1022)"
  have le: "ex \<le> ey"
    using expo_mono [OF assms] by (simp add: ex_def ey_def)
  show ?thesis
  proof (cases "ex = ey")
    case True
    have "x / 2 powi (ey - 52) \<le> y / 2 powi (ey - 52)"
      using assms(2) by (simp add: divide_right_mono)
    from rne_mono [OF this]
    have "(of_int (rne (x / 2 powi (ey - 52))) :: rat) \<le> of_int (rne (y / 2 powi (ey - 52)))"
      by (simp only: of_int_le_iff)
    then have "of_int (rne (x / 2 powi (ey - 52))) * (2::rat) powi (ey - 52)
        \<le> of_int (rne (y / 2 powi (ey - 52))) * 2 powi (ey - 52)"
      by (rule mult_right_mono) simp
    then show ?thesis
      unfolding round_double_eq ex_def [symmetric] ey_def [symmetric] True .
  next
    case False
    with le have lt: "ex + 1 \<le> ey" by simp
    then have n: "- 1022 \<le> expo y" and ey: "ey = expo y"
      by (simp_all add: ex_def ey_def)
    have "round_double x \<le> 2 powi (ex + 1)"
      unfolding ex_def by (rule round_double_upper [OF assms(1)])
    also have "\<dots> \<le> 2 powi ey"
      using lt by (intro power_int_increasing) simp_all
    also have "\<dots> \<le> round_double y"
      unfolding ey by (rule round_double_lower [OF y n])
    finally show ?thesis .
  qed
qed

lemma round_double_exact:
  assumes "2 powi e \<le> x" and "x < 2 powi (e + 1)" and "- 1022 \<le> e"
    and "x = of_int n * 2 powi (e - 52)"
  shows "round_double x = x"
proof -
  have e: "max (expo x) (- 1022) = e"
    using expo_unique [OF assms(1,2)] assms(3) by simp
  have "x / 2 powi (e - 52) = of_int n"
    by (simp add: assms(4))
  then show ?thesis
    unfolding round_double_eq e by (simp add: rne_of_int assms(4) [symmetric])
qed

lemma round_double_1: "round_double 1 = 1"
  by (rule round_double_exact [of 0 _ "2 ^ 52"]) simp_all

lemma round_double_80: "round_double 80 = 80"
  by (rule round_double_exact [of 6 _ "5 * 2 ^ 50"]) simp_all

lemma round_double_error:
  assumes "0 < x"
  shows "\<bar>round_double x - x\<bar> \<le> 2 powi (max (expo x) (- 1022) - 53)"
proof -
  define e where "e = max (expo x) (- 1022)"
  define u :: rat where "u = 2 powi (e - 52)"
  have u: "0 < u" by (simp add: u_def)
  have "of_int (rne (x / u)) * u - x = (of_int (rne (x / u)) - x / u) * u"
    using u by (simp add: field_simps)
  then have "\<bar>of_int (rne (x / u)) * u - x\<bar> = \<bar>of_int (rne (x / u)) - x / u\<bar> * u"
    using u by (simp only: abs_mult abs_of_pos)
  also have "\<dots> \<le> 1 / 2 * u"
    using rne_error [of "x / u"] u by (intro mult_right_mono) simp_all
  also have "\<dots> = 2 powi (e - 53)"
  proof -
    have a: "(2::rat) powi (1 + (e - 53)) = 2 powi 1 * 2 powi (e - 53)"
      by (rule power_int_add) simp
    have b: "1 + (e - 53) = e - 52" by simp
    show ?thesis using a unfolding b by (simp add: u_def)
  qed
  finally show ?thesis
    unfolding round_double_eq e_def [symmetric] u_def [symmetric] .
qed


lemma expo_le:
  assumes "0 < x" and "x \<le> y" and "y < 2 powi (e + 1)"
  shows "expo x \<le> e"
proof (rule ccontr)
  assume "\<not> expo x \<le> e"
  then have "e + 1 \<le> expo x" by simp
  then have "(2::rat) powi (e + 1) \<le> 2 powi expo x"
    by (intro power_int_increasing) simp_all
  with expo_bounds(1) [OF assms(1)] assms(2,3) show False by linarith
qed

lemma double_of_0: "double_of 0 = 0"
  by (simp add: double_of_def)

lemma double_of_1: "double_of 1 = 1"
  by (simp add: double_of_def round_double_1)

lemma double_of_80: "double_of 80 = 80"
  by (simp add: double_of_def round_double_80)

lemma double_of_nonneg: "0 \<le> x \<Longrightarrow> 0 \<le> double_of x"
  by (simp add: double_of_def round_double_nonneg)

lemma double_of_mono:
  assumes "0 \<le> x" and "x \<le> y"
  shows "double_of x \<le> double_of y"
proof (cases "x = 0")
  case True
  with assms double_of_nonneg [of y] show ?thesis by (simp add: double_of_0)
next
  case False
  with assms have "0 < x" and "y \<noteq> 0" by simp_all
  with assms(2) show ?thesis
    by (simp add: double_of_def round_double_mono)
qed

lemma double_of_error:
  assumes "0 \<le> x" and "x < 2 powi (e + 1)" and "- 1022 \<le> e"
  shows "\<bar>double_of x - x\<bar> \<le> 2 powi (e - 53)"
proof (cases "x = 0")
  case True
  then show ?thesis by (simp add: double_of_0)
next
  case False
  with assms(1) have x: "0 < x" by simp
  have "expo x \<le> e" by (rule expo_le [OF x order_refl assms(2)])
  with assms(3) have "max (expo x) (- 1022) - 53 \<le> e - 53" by simp
  then have "(2::rat) powi (max (expo x) (- 1022) - 53) \<le> 2 powi (e - 53)"
    by (intro power_int_increasing) simp_all
  with round_double_error [OF x] False show ?thesis
    by (simp add: double_of_def)
qed

lemma js_fl_double:
  assumes "0 \<le> x" and "x \<le> 80"
  shows "js_fl x = Num (double_of x)"
proof (cases "x = 0")
  case True
  then show ?thesis by (simp add: js_fl_def double_of_def)
next
  case False
  with assms(1) have x: "0 < x" by simp
  have "round_double x \<le> round_double 80"
    by (rule round_double_mono [OF x assms(2)])
  then have "round_double x < 2 ^ 1024"
    by (simp add: round_double_80)
  with x False show ?thesis
    by (simp add: js_fl_def double_of_def Let_def)
qed

lemma ratio_bounds:
  fixes d T :: nat
  assumes "0 < T" and "d \<le> T"
  shows "(0::rat) \<le> of_nat d / of_nat T" and "(of_nat d :: rat) / of_nat T \<le> 1"
  using assms by simp_all

lemma scaled_bounds:
  fixes d T :: nat
  assumes "0 < T" and "d \<le> T"
  shows "0 \<le> double_of (of_nat d / of_nat T) * 80"
    and "double_of (of_nat d / of_nat T) * 80 \<le> 80"
proof -
  note r = ratio_bounds [OF assms]
  have n: "0 \<le> double_of (of_nat d / of_nat T)" by (rule double_of_nonneg [OF r(1)])
  then show "0 \<le> double_of (of_nat d / of_nat T) * 80" by simp
  have "double_of (of_nat d / of_nat T) \<le> double_of 1"
    by (rule double_of_mono [OF r])
  then have "double_of (of_nat d / of_nat T) \<le> 1" by (simp add: double_of_1)
  then have "double_of (of_nat d / of_nat T) * 80 \<le> 1 * 80"
    by (rule mult_right_mono) simp
  then show "double_of (of_nat d / of_nat T) * 80 \<le> 80" by simp
qed

lemma progress_of_bytes:
  assumes "0 < T" and "d \<le> T"
  shows "progress_of (Num (of_nat d)) (Num (of_nat T)) = Num (of_int (percent d T))"
proof -
  note r = ratio_bounds [OF assms]
  from r(2) have "(of_nat d :: rat) / of_nat T \<le> 80" by linarith
  from js_fl_double [OF r(1) this] assms(1)
  have q: "js_div (Num (of_nat d)) (Num (of_nat T)) = Num (double_of (of_nat d / of_nat T))"
    by simp
  have m: "js_mul (Num (double_of (of_nat d / of_nat T))) (Num 80)
      = Num (double_of (double_of (of_nat d / of_nat T) * 80))"
    using js_fl_double [OF scaled_bounds [OF assms]] by simp
  show ?thesis
    unfolding progress_of_def q m percent_def by simp
qed

lemma percent_bounds:
  assumes "0 < T" and "d \<le> T"
  shows "0 \<le> percent d T" and "percent d T \<le> 80"
proof -
  note b = scaled_bounds [OF assms]
  have "0 \<le> double_of (double_of (of_nat d / of_nat T) * 80)"
    by (rule double_of_nonneg [OF b(1)])
  then have "(0::rat) \<le> double_of (double_of (of_nat d / of_nat T) * 80) + 1 / 2" by simp
  then show "0 \<le> percent d T" unfolding percent_def by simp
  have "double_of (double_of (of_nat d / of_nat T) * 80) \<le> double_of 80"
    by (rule double_of_mono [OF b])
  then have "double_of (double_of (of_nat d / of_nat T) * 80) + 1 / 2 < of_int 80 + 1"
    by (simp add: double_of_80)
  then show "percent d T \<le> 80" unfolding percent_def by (simp only: floor_le_iff)
qed

lemma percent_mono:
  assumes "d \<le> d'"
  shows "percent d T \<le> percent d' T"
proof -
  have a: "(0::rat) \<le> of_nat d / of_nat T" by simp
  have "(of_nat d :: rat) / of_nat T \<le> of_nat d' / of_nat T"
    using assms by (simp add: divide_right_mono)
  from double_of_mono [OF a this]
  have "double_of (of_nat d / of_nat T) * 80 \<le> double_of (of_nat d' / of_nat T) * 80"
    by (rule mult_right_mono) simp
  moreover have "0 \<le> double_of (of_nat d / of_nat T) * 80"
    using double_of_nonneg [OF a] by simp
  ultimately have "double_of (double_of (of_nat d / of_nat T) * 80)
      \<le> double_of (double_of (of_nat d' / of_nat T) * 80)"
    by (intro double_of_mono)
  then have "double_of (double_of (of_nat d / of_nat T) * 80) + 1 / 2
      \<le> double_of (double_of (of_nat d' / of_nat T) * 80) + 1 / 2"
    by simp
  then show ?thesis unfolding percent_def by (rule floor_mono)
qed

lemma percent_close:
  assumes "0 < T" and "d \<le> T"
  shows "\<bar>of_int (percent d T) - of_nat d / of_nat T * 80\<bar> \<le> (1 / 2 + 1 / 2 ^ 45 :: rat)"
proof -
  define q :: rat where "q = of_nat d / of_nat T"
  define z where "z = double_of q * 80"
  define y where "y = double_of z"
  have r: "0 \<le> q" "q \<le> 1"
    using ratio_bounds [OF assms] by (simp_all only: q_def)
  have b: "0 \<le> z" "z \<le> 80"
    using scaled_bounds [OF assms] by (simp_all only: z_def q_def)
  have "q < 2 powi (0 + 1)" using r(2) by simp
  from double_of_error [OF r(1) this] have e1: "\<bar>double_of q - q\<bar> \<le> 1 / 2 ^ 53"
    by (simp add: power_int_minus_divide)
  have "z < 2 powi (6 + 1)" using b(2) by simp
  from double_of_error [OF b(1) this] have e2: "\<bar>y - z\<bar> \<le> 1 / 2 ^ 47"
    by (simp add: y_def power_int_minus_divide)
  have eq: "z - q * 80 = (double_of q - q) * 80" by (simp add: z_def algebra_simps)
  have "\<bar>z - q * 80\<bar> = \<bar>double_of q - q\<bar> * 80"
    unfolding eq by (simp only: abs_mult abs_numeral)
  moreover from e1 have "\<bar>double_of q - q\<bar> * 80 \<le> 1 / 2 ^ 53 * 80"
    by (rule mult_right_mono) simp
  ultimately have e3: "\<bar>z - q * 80\<bar> \<le> 1 / 2 ^ 53 * 80" by (simp only:)
  have f: "\<bar>of_int \<lfloor>y + 1 / 2\<rfloor> - y\<bar> \<le> 1 / 2"
  proof -
    have "of_int \<lfloor>y + 1 / 2\<rfloor> \<le> y + 1 / 2" and "y + 1 / 2 < of_int \<lfloor>y + 1 / 2\<rfloor> + 1"
      by linarith+
    then show ?thesis unfolding abs_le_iff by linarith
  qed
  have "\<bar>of_int \<lfloor>y + 1 / 2\<rfloor> - q * 80\<bar>
      \<le> \<bar>of_int \<lfloor>y + 1 / 2\<rfloor> - y\<bar> + \<bar>y - z\<bar> + \<bar>z - q * 80\<bar>"
    by linarith
  also have "\<dots> \<le> 1 / 2 + 1 / 2 ^ 47 + 1 / 2 ^ 53 * 80"
    using f e2 e3 by linarith
  also have "\<dots> \<le> 1 / 2 + 1 / 2 ^ 45" by simp
  finally show ?thesis
    by (simp add: percent_def y_def z_def q_def)
qed

text \<open>
  Double rounding shows: the exact value of \<open>d / T * 80\<close> is below 34.5 here, the value
  computed by the handler is 35.
\<close>

lemma progress_of_rounds_as_doubles:
  "progress_of (Num 1999376141769695) (Num 4636234531639873) = Num 35"
  "round (1999376141769695 / 4636234531639873 * 80 :: rat) = 34"
proof -
  have q: "round_double (1999376141769695 / 4636234531639873)
      = 7768709357214105 / 18014398509481984"
    by code_simp
  have y: "round_double (38843546786070525 / 1125899906842624) = 69 / 2"
    by code_simp
  show "progress_of (Num 1999376141769695) (Num 4636234531639873) = Num 35"
    by (simp add: progress_of_def js_fl_def q y Let_def)
  show "round (1999376141769695 / 4636234531639873 * 80 :: rat) = 34"
    by (rule round_unique) simp_all
qed

section \<open>The runner: status and progress (claims C1, C3, C7)\<close>

lemma last_perform: "last (s # perform as s) = fold apply_action as s"
  by (induction as arbitrary: s) simp_all

lemma perform_records:
  "downloads (storage s) jid = Some d \<Longrightarrow>
     List.map_filter (\<lambda>s. downloads (storage s) jid) (perform as s) = records jid d as"
proof (induction as arbitrary: s d)
  case Nil
  show ?case by (simp add: List.map_filter_simps)
next
  case (Cons a as)
  show ?case
  proof (cases a)
    case (UpdateDownload i u)
    show ?thesis
    proof (cases "i = jid")
      case True
      have "downloads (storage (apply_action a s)) jid = Some (spread d u)"
        using Cons.prems True UpdateDownload by (simp add: updateDownload_def Let_def)
      then show ?thesis
        using Cons.IH [of "apply_action a s" "spread d u"] True UpdateDownload
        by (simp add: List.map_filter_simps)
    next
      case False
      have "downloads (storage (apply_action a s)) jid = Some d"
        using Cons.prems False UpdateDownload
        by (simp add: updateDownload_def Let_def split: option.splits)
      then show ?thesis
        using Cons.IH [of "apply_action a s" d] False UpdateDownload
        by (simp add: List.map_filter_simps)
    qed
  next
    case (BroadcastProgress f)
    then show ?thesis
      using Cons.IH [of "apply_action a s" d] Cons.prems by (simp add: List.map_filter_simps)
  next
    case (CreateZip p bytes)
    then show ?thesis
      using Cons.IH [of "apply_action a s" d] Cons.prems by (simp add: List.map_filter_simps)
  qed
qed

lemma fold_frames: "frames (fold apply_action as s) = frames s @ broadcasts as"
  by (induction as arbitrary: s rule: broadcasts.induct) simp_all

lemma records_append:
  "records jid d (as @ bs) = records jid d as @ records jid (last (d # records jid d as)) bs"
  by (induction jid d as rule: records.induct) simp_all

lemma broadcasts_append: "broadcasts (as @ bs) = broadcasts as @ broadcasts bs"
  by (induction as rule: broadcasts.induct) simp_all

lemma records_progress:
  "records jid d (concat (map (on_progress i) evs)) = replicate (length evs) d"
  by (induction evs) (simp_all add: on_progress_def split: prod.splits)

lemma broadcasts_progress:
  "broadcasts (concat (map (on_progress i) evs)) =
     map (\<lambda>ev. \<lparr>f_downloadId = i, f_status = ''downloading'',
        f_progress = Some (progress_of (fst (snd ev)) (snd (snd ev))), f_error = None\<rparr>) evs"
  by (induction evs) (simp_all add: on_progress_def split: prod.splits)


lemma stored_progress_records:
  "stored_progress jid tr =
     List.map_filter progress (List.map_filter (\<lambda>s. downloads (storage s) jid) tr)"
  by (induction tr) (simp_all add: stored_progress_def List.map_filter_simps split: option.splits)

lemma job_trace_records:
  "List.map_filter (\<lambda>s. downloads (storage s) (currentDownloadId (storage s0)))
       (job_trace env ins now s0) =
     fresh ins now s0 #
     records (currentDownloadId (storage s0)) (fresh ins now s0)
       (processDownload env (currentDownloadId (storage s0))
          (s0\<lparr>storage := snd (createDownload ins now (storage s0))\<rparr>))"
proof -
  let ?s1 = "s0\<lparr>storage := snd (createDownload ins now (storage s0))\<rparr>"
  have g: "downloads (storage ?s1) (currentDownloadId (storage s0)) = Some (fresh ins now s0)"
    by (simp add: createDownload_def fresh_def Let_def)
  show ?thesis
    unfolding job_trace_def Let_def
    using g perform_records [OF g] by (simp add: List.map_filter_simps)
qed

lemma job_trace_frames:
  "pushed env ins now s0 =
     broadcasts (processDownload env (currentDownloadId (storage s0))
          (s0\<lparr>storage := snd (createDownload ins now (storage s0))\<rparr>))"
  unfolding pushed_def job_trace_def Let_def last_perform fold_frames by simp

lemma processDownload_fresh:
  "processDownload env (currentDownloadId (storage s0))
          (s0\<lparr>storage := snd (createDownload ins now (storage s0))\<rparr>) =
     [UpdateDownload (currentDownloadId (storage s0))
        (no_updates\<lparr>upd_status := Some ''downloading''\<rparr>),
      BroadcastProgress
        \<lparr>f_downloadId = currentDownloadId (storage s0), f_status = ''downloading'',
         f_progress = Some (Num 0), f_error = None\<rparr>] @
     (case prepare env (fresh ins now s0) of
        Inl msg \<Rightarrow> failed (currentDownloadId (storage s0)) msg
      | Inr (videoTitle, fmt) \<Rightarrow>
          (case stream_result env of
             Finish zipped cleanup \<Rightarrow>
               concat (map (on_progress (currentDownloadId (storage s0))) (progress_events env)) @
               on_finish env (currentDownloadId (storage s0)) videoTitle zipped cleanup
           | WriteError k msg \<Rightarrow>
               concat (map (on_progress (currentDownloadId (storage s0)))
                         (take k (progress_events env))) @
               failed (currentDownloadId (storage s0)) msg @
               concat (map (on_progress (currentDownloadId (storage s0)))
                         (drop k (progress_events env)))
           | StreamError msg \<Rightarrow>
               concat (map (on_progress (currentDownloadId (storage s0))) (progress_events env))
           | Running \<Rightarrow>
               concat (map (on_progress (currentDownloadId (storage s0))) (progress_events env))))"
  by (simp add: processDownload_def getDownload_def createDownload_def fresh_def Let_def)


lemma progress_fresh: "progress (fresh ins now s) = Some 0"
  by (simp add: fresh_def createDownload_def Let_def)

lemma status_rank_simps:
  "status_rank ''pending'' = 0" "status_rank ''downloading'' = 1"
  "status_rank ''creating_zip'' = 2" "status_rank ''completed'' = 3"
  "status_rank ''failed'' = 4"
  by (simp_all add: status_rank_def)

lemma map_take_drop: "map f (take k xs) @ map f (drop k xs) = map f xs"
  by (simp add: map_append [symmetric] del: map_append)

lemma last_Cons_replicate: "last (d # replicate n d) = d"
  by (induction n) simp_all

lemma map_filter_append: "List.map_filter f (xs @ ys) = List.map_filter f xs @ List.map_filter f ys"
  by (simp add: List.map_filter_def)

lemma map_filter_replicate:
  "List.map_filter f (replicate n x) = (case f x of None \<Rightarrow> [] | Some y \<Rightarrow> replicate n y)"
  by (induction n) (simp_all add: List.map_filter_simps split: option.splits)


lemma pushed_statuses_shape:
  "map f_status (pushed env ins now s) =
     ''downloading'' #
     (case prepare env (fresh ins now s) of
        Inl msg \<Rightarrow> [''failed'']
      | Inr r \<Rightarrow>
          (case stream_result env of
             Finish zipped cleanup \<Rightarrow>
               replicate (length (progress_events env)) ''downloading'' @
               ''creating_zip'' #
               (case zipped of
                  ArchiveError msg \<Rightarrow> [''failed'']
                | OutputError msg \<Rightarrow> []
                | Archived bytes \<Rightarrow>
                    ''completed'' # (case cleanup of None \<Rightarrow> [] | Some msg \<Rightarrow> [''failed'']))
           | WriteError k msg \<Rightarrow>
               replicate (min (length (progress_events env)) k) ''downloading'' @
               ''failed'' #
               replicate (length (progress_events env) - k) ''downloading''
           | StreamError msg \<Rightarrow> replicate (length (progress_events env)) ''downloading''
           | Running \<Rightarrow> replicate (length (progress_events env)) ''downloading''))"
  unfolding job_trace_frames processDownload_fresh
  by (simp add: broadcasts_append broadcasts_progress failed_def on_finish_def
      comp_def map_replicate_const
      split: sum.splits prod.splits stream_result.splits option.splits archive_result.splits)

lemma stored_progress_shape:
  "stored_progress (currentDownloadId (storage s)) (job_trace env ins now s) =
     0 # 0 # 0 #
     (case prepare env (fresh ins now s) of
        Inl msg \<Rightarrow> [0, 0]
      | Inr r \<Rightarrow>
          (case stream_result env of
             Finish zipped cleanup \<Rightarrow>
               replicate (length (progress_events env)) 0 @
               0 #
               (case zipped of
                  ArchiveError msg \<Rightarrow> [0, 0]
                | OutputError msg \<Rightarrow> []
                | Archived bytes \<Rightarrow>
                    0 # 100 # 100 # (case cleanup of None \<Rightarrow> [] | Some msg \<Rightarrow> [100, 100]))
           | WriteError k msg \<Rightarrow>
               replicate (min (length (progress_events env)) k) 0 @
               0 # 0 # replicate (length (progress_events env) - k) 0
           | StreamError msg \<Rightarrow> replicate (length (progress_events env)) 0
           | Running \<Rightarrow> replicate (length (progress_events env)) 0))"
  unfolding stored_progress_records job_trace_records processDownload_fresh
  by (simp add: records_append records_progress failed_def on_finish_def progress_fresh
      spread_def override_def no_updates_def List.map_filter_simps map_filter_append
      map_filter_replicate last_Cons_replicate
      split: sum.splits prod.splits stream_result.splits option.splits archive_result.splits)

lemma pushed_progress_shape:
  "pushed_progress env ins now s =
     Num 0 #
     (case prepare env (fresh ins now s) of
        Inl msg \<Rightarrow> []
      | Inr r \<Rightarrow>
          map (\<lambda>ev. progress_of (fst (snd ev)) (snd (snd ev))) (progress_events env) @
          (case stream_result env of
             Finish zipped cleanup \<Rightarrow>
               Num 90 # (case zipped of Archived bytes \<Rightarrow> [Num 100] | _ \<Rightarrow> [])
           | _ \<Rightarrow> []))"
  unfolding pushed_progress_def job_trace_frames processDownload_fresh
  by (simp add: broadcasts_append broadcasts_progress failed_def on_finish_def
      comp_def List.map_filter_simps List.map_filter_def map_take_drop
      split: sum.splits prod.splits stream_result.splits option.splits archive_result.splits)

lemma storage_progress:
  "storage (fold apply_action (concat (map (on_progress i) evs)) s) = storage s"
  by (induction evs arbitrary: s) (simp_all add: on_progress_def split: prod.splits)

lemma files_progress:
  "files (fold apply_action (concat (map (on_progress i) evs)) s) = files s"
  by (induction evs arbitrary: s) (simp_all add: on_progress_def split: prod.splits)




lemma forward_simps:
  "forward x x"
  "forward ''pending'' ''downloading''"
  "forward ''downloading'' ''creating_zip''"
  "forward ''downloading'' ''completed''"
  "forward ''downloading'' ''failed''"
  "forward ''creating_zip'' ''completed''"
  "forward ''creating_zip'' ''failed''"
  by (simp_all add: forward_def status_rank_def)










lemma prepare_stream_result:
  "prepare (env\<lparr>stream_result := r\<rparr>) d = prepare env d"
proof -
  have "chooseFormat (env\<lparr>stream_result := r\<rparr>) = chooseFormat env"
    by simp
  hence "\<And>info. choose_encoding (env\<lparr>stream_result := r\<rparr>) d info = choose_encoding env d info"
    unfolding choose_encoding_def by (simp only:)
  thus ?thesis
    by (simp add: prepare_def cong: sum.case_cong)
qed

lemma demo_prepare:
  "prepare (demo_env evs) (fresh demo_insert now s) = Inr (units ''My clip'', demo_format)"
  by (simp add: prepare_def choose_encoding_def demo_env_def fresh_def createDownload_def
      demo_insert_def videoTitle_of_def trim_def units_def word_unit_def space_unit_def Let_def)

lemma demo_job:
  "currentDownloadId (storage boot) = 1"
  "stream_result (demo_env evs) = Finish (Archived ''PK'') None"
  "progress_events (demo_env evs) = evs"
  "progress_events ((demo_env evs)\<lparr>stream_result := r\<rparr>) = evs"
  by (simp_all add: boot_def MemStorage_def demo_env_def)



text \<open>
  When the write stream fails before the last progress event, frames with "downloading"
  follow the "failed" frame: the progress handler stays attached.
\<close>

lemma progress_after_write_error:
  "map f_status
     (pushed ((demo_env [(Num 1, Num 1, Num 2)])\<lparr>stream_result := WriteError 0 ''EACCES''\<rparr>)
        demo_insert 5 boot)
     = [''downloading'', ''failed'', ''downloading'']"
  unfolding pushed_statuses_shape
  by (simp add: demo_job demo_prepare prepare_stream_result)

lemma round_double_half: "round_double (1 / 2) = 1 / 2"
  by (rule round_double_exact [of "- 1" _ "2 ^ 52"]) simp_all

lemma round_double_40: "round_double 40 = 40"
  by (rule round_double_exact [of 5 _ "5 * 2 ^ 50"]) simp_all

lemma round_double_3_2: "round_double (3 / 2) = 3 / 2"
  by (rule round_double_exact [of 0 _ "3 * 2 ^ 51"]) simp_all

lemma round_double_120: "round_double 120 = 120"
  by (rule round_double_exact [of 6 _ "15 * 2 ^ 49"]) simp_all

lemma floor_rat_numeral: "\<lfloor>numeral a / numeral b :: rat\<rfloor> = numeral a div numeral b"
  using floor_divide_of_int_eq [of "numeral a" "numeral b", where ?'a = rat] by simp

lemma percent_1000_2000: "percent 1000 2000 = 40"
  by (simp add: percent_def double_of_def round_double_half round_double_40 floor_rat_numeral)

lemma progress_of_3000_2000: "progress_of (Num 3000) (Num 2000) = Num 120"
  by (simp add: progress_of_def js_fl_def round_double_3_2 round_double_120 floor_rat_numeral)

lemma sorted_wrt_js_le_Num: "sorted_wrt js_le (map Num xs) = sorted xs"
  by (induction xs) auto

lemma list_all_in_range_Num:
  "list_all in_range (map Num xs) = list_all (\<lambda>x. 0 \<le> x \<and> x \<le> 100) xs"
  by (induction xs) (simp_all add: in_range_def)

lemma reported_progress:
  assumes "0 < T" "list_all (\<lambda>(c, d). d \<le> T) cds" "progress_events env = byte_reports T cds"
  shows "map (\<lambda>ev. progress_of (fst (snd ev)) (snd (snd ev))) (progress_events env) =
    map Num (map (\<lambda>cd. of_int (percent (snd cd) T)) cds)"
proof -
  have "progress_of (Num (of_nat (snd cd))) (Num (of_nat T)) = Num (of_int (percent (snd cd) T))"
    if "cd \<in> set cds" for cd
  proof -
    from that assms(2) have "snd cd \<le> T" by (auto simp: list_all_iff)
    from progress_of_bytes [OF assms(1) this] show ?thesis .
  qed
  then show ?thesis
    unfolding assms(3) byte_reports_def by (simp add: split_def)
qed

lemma pushed_progress_reported:
  assumes "0 < T" "list_all (\<lambda>(c, d). d \<le> T) cds" "progress_events env = byte_reports T cds"
  shows "pushed_progress env ins now s =
     map Num (0 #
       (case prepare env (fresh ins now s) of
          Inl msg \<Rightarrow> []
        | Inr r \<Rightarrow>
            map (\<lambda>cd. of_int (percent (snd cd) T)) cds @
            (case stream_result env of
               Finish zipped cleanup \<Rightarrow> 90 # (case zipped of Archived bytes \<Rightarrow> [100] | _ \<Rightarrow> [])
             | _ \<Rightarrow> [])))"
  unfolding pushed_progress_shape reported_progress [OF assms]
  by (simp split: sum.splits stream_result.splits archive_result.splits)

lemma sorted_reported:
  assumes "sorted (map snd cds)"
  shows "sorted (map (\<lambda>cd. (of_int (percent (snd cd) T) :: rat)) cds)"
proof -
  have "sorted_wrt (\<lambda>x y. snd x \<le> snd y) cds"
    using assms unfolding sorted_map .
  then have "sorted_wrt (\<lambda>x y. (of_int (percent (snd x) T) :: rat)
      \<le> of_int (percent (snd y) T)) cds"
  proof (rule sorted_wrt_mono_rel [rotated])
    fix x y
    assume "x \<in> set cds" "y \<in> set cds" "snd x \<le> snd y"
    note this(3)
    from percent_mono [OF this, of T]
    show "(of_int (percent (snd x) T) :: rat) \<le> of_int (percent (snd y) T)"
      by (simp only: of_int_le_iff)
  qed
  then show ?thesis unfolding sorted_map .
qed

lemma bounds_reported:
  assumes "0 < T" "list_all (\<lambda>(c, d). d \<le> T) cds"
  shows "\<forall>p \<in> set (map (\<lambda>cd. (of_int (percent (snd cd) T) :: rat)) cds). 0 \<le> p \<and> p \<le> 80"
proof -
  have "0 \<le> (of_int (percent (snd cd) T) :: rat) \<and> (of_int (percent (snd cd) T) :: rat) \<le> 80"
    if "cd \<in> set cds" for cd
  proof -
    from that assms(2) have le: "snd cd \<le> T" by (auto simp: list_all_iff)
    from percent_bounds [OF assms(1) le] show ?thesis
      by (simp only: of_int_0_le_iff of_int_le_numeral_iff)
  qed
  then show ?thesis unfolding set_map by blast
qed

text \<open>
  Claim C3, as the code has it. The handler computes \<open>Math.round((downloaded / total) * 80)\<close>
  in double arithmetic: the quotient is rounded to a double, the product with 80 is rounded
  to a double, and the result is rounded to the nearest integer (\<open>percent\<close>). For byte
  counts \<open>d \<le> T\<close> with \<open>T > 0\<close> the pushed value is this integer; it lies between 0 and 80
  and differs from the exact \<open>d / T * 80\<close> by at most \<open>1/2 + 2\<^sup>-\<^sup>4\<^sup>5\<close>. The frames of a job
  carry 0 at the start, then the value computed from each progress event, then 90 when
  archiving starts and 100 once the archive is written; the stored progress is only ever
  0 or 100. When all events report byte counts within one positive total, every pushed
  progress value lies in the range 0 to 100.
\<close>

theorem progress_values:
  "(0 < T \<and> d \<le> T \<longrightarrow>
      progress_of (Num (of_nat d)) (Num (of_nat T)) = Num (of_int (percent d T))
      \<and> 0 \<le> percent d T
      \<and> percent d T \<le> 80
      \<and> \<bar>of_int (percent d T) - of_nat d / of_nat T * 80\<bar> \<le> (1 / 2 + 1 / 2 ^ 45 :: rat))
   \<and> pushed_progress env ins now s =
       Num 0 #
       (case prepare env (fresh ins now s) of
          Inl msg \<Rightarrow> []
        | Inr r \<Rightarrow>
            map (\<lambda>ev. progress_of (fst (snd ev)) (snd (snd ev))) (progress_events env) @
            (case stream_result env of
               Finish zipped cleanup \<Rightarrow>
                 Num 90 # (case zipped of Archived bytes \<Rightarrow> [Num 100] | _ \<Rightarrow> [])
             | _ \<Rightarrow> []))
   \<and> set (stored_progress (currentDownloadId (storage s)) (job_trace env ins now s)) \<subseteq> {0, 100}
   \<and> (0 < T \<and> list_all (\<lambda>(c, d). d \<le> T) cds \<and> progress_events env = byte_reports T cds \<longrightarrow>
        list_all in_range (pushed_progress env ins now s))"
proof (intro conjI impI)
  assume a: "0 < T \<and> d \<le> T"
  then have t: "0 < T" and d: "d \<le> T" by blast+
  show "progress_of (Num (of_nat d)) (Num (of_nat T)) = Num (of_int (percent d T))"
    by (rule progress_of_bytes [OF t d])
  show "0 \<le> percent d T" and "percent d T \<le> 80"
    by (rule percent_bounds [OF t d])+
  show "\<bar>of_int (percent d T) - of_nat d / of_nat T * 80\<bar> \<le> (1 / 2 + 1 / 2 ^ 45 :: rat)"
    by (rule percent_close [OF t d])
next
  show "pushed_progress env ins now s =
       Num 0 #
       (case prepare env (fresh ins now s) of
          Inl msg \<Rightarrow> []
        | Inr r \<Rightarrow>
            map (\<lambda>ev. progress_of (fst (snd ev)) (snd (snd ev))) (progress_events env) @
            (case stream_result env of
               Finish zipped cleanup \<Rightarrow>
                 Num 90 # (case zipped of Archived bytes \<Rightarrow> [Num 100] | _ \<Rightarrow> [])
             | _ \<Rightarrow> []))"
    by (rule pushed_progress_shape)
next
  show "set (stored_progress (currentDownloadId (storage s)) (job_trace env ins now s)) \<subseteq> {0, 100}"
    unfolding stored_progress_shape
    by (auto split: sum.splits stream_result.splits option.splits archive_result.splits)
next
  assume a: "0 < T \<and> list_all (\<lambda>(c, d). d \<le> T) cds \<and> progress_events env = byte_reports T cds"
  then have t: "0 < T" and b: "list_all (\<lambda>(c, d). d \<le> T) cds"
    and e: "progress_events env = byte_reports T cds"
    by blast+
  show "list_all in_range (pushed_progress env ins now s)"
    unfolding pushed_progress_reported [OF t b e] list_all_in_range_Num
    using bounds_reported [OF t b]
    by (fastforce simp: list_all_iff split: sum.splits stream_result.splits archive_result.splits)
qed

theorem progress_values_witness:
  "progress_of (Num (of_nat 1000)) (Num (of_nat 2000)) = Num 40
   \<and> list_all in_range
        (pushed_progress (demo_env (byte_reports 2000 [(1000, 1000), (1000, 2000)]))
           demo_insert 5 boot)"
proof -
  have h: "0 < (2000::nat) \<and> (1000::nat) \<le> 2000"
    and k: "0 < (2000::nat) \<and> list_all (\<lambda>(c, d). d \<le> (2000::nat)) [(1000::nat, 1000::nat), (1000, 2000)]
      \<and> progress_events (demo_env (byte_reports 2000 [(1000, 1000), (1000, 2000)]))
          = byte_reports 2000 [(1000, 1000), (1000, 2000)]"
    by (simp_all add: demo_env_def)
  note t = progress_values [of 2000 1000 "demo_env (byte_reports 2000 [(1000, 1000), (1000, 2000)])"
        demo_insert 5 boot "[(1000, 1000), (1000, 2000)]"]
  from t h have p: "progress_of (Num (of_nat 1000)) (Num (of_nat 2000))
      = Num (of_int (percent 1000 2000))"
    by blast
  from t k have l: "list_all in_range
        (pushed_progress (demo_env (byte_reports 2000 [(1000, 1000), (1000, 2000)]))
           demo_insert 5 boot)"
    by blast
  from p have "progress_of (Num (of_nat 1000)) (Num (of_nat 2000)) = Num 40"
    unfolding percent_1000_2000 by simp
  with l show ?thesis by blast
qed

text \<open>
  The claim as stated fails where the library's numbers are not byte counts within a
  known total: the handler neither guards the total nor clamps the result. A total of 0
  gives a value that is not finite, and 3000 bytes of 2000 give 120.
\<close>

theorem progress_out_of_range:
  "progress_of (Num 1024) (Num 0) = PosInf \<and> \<not> in_range PosInf
   \<and> progress_of (Num 3000) (Num 2000) = Num 120 \<and> \<not> in_range (Num 120)"
  by (simp add: progress_of_3000_2000) (simp add: progress_of_def in_range_def)

text \<open>
  Claim C7, as the code has it. The stored progress of a job never decreases. The progress
  values pushed for a job never decrease when the progress events report byte counts
  that never decrease and stay within one positive total.
\<close>

theorem progress_nondecreasing:
  "sorted (stored_progress (currentDownloadId (storage s)) (job_trace env ins now s))
   \<and> (0 < T \<and> list_all (\<lambda>(c, d). d \<le> T) cds \<and> sorted (map snd cds)
        \<and> progress_events env = byte_reports T cds \<longrightarrow>
        sorted_wrt js_le (pushed_progress env ins now s))"
proof (intro conjI impI)
  show "sorted (stored_progress (currentDownloadId (storage s)) (job_trace env ins now s))"
    unfolding stored_progress_shape
    by (auto simp: sorted_append
        split: sum.splits stream_result.splits option.splits archive_result.splits)
next
  assume a: "0 < T \<and> list_all (\<lambda>(c, d). d \<le> T) cds \<and> sorted (map snd cds)
        \<and> progress_events env = byte_reports T cds"
  then have t: "0 < T" and b: "list_all (\<lambda>(c, d). d \<le> T) cds"
    and m: "sorted (map snd cds)" and e: "progress_events env = byte_reports T cds"
    by blast+
  show "sorted_wrt js_le (pushed_progress env ins now s)"
    unfolding pushed_progress_reported [OF t b e] sorted_wrt_js_le_Num
    using sorted_reported [OF m, of T] bounds_reported [OF t b]
    by (fastforce simp: sorted_append
        split: sum.splits stream_result.splits archive_result.splits)
qed

theorem progress_nondecreasing_witness:
  "sorted (stored_progress 1
      (job_trace (demo_env (byte_reports 2000 [(1000, 1000), (1000, 2000)])) demo_insert 5 boot))
   \<and> sorted_wrt js_le
        (pushed_progress (demo_env (byte_reports 2000 [(1000, 1000), (1000, 2000)]))
           demo_insert 5 boot)"
proof -
  have j: "currentDownloadId (storage boot) = 1"
    by (simp add: boot_def MemStorage_def)
  have k: "0 < (2000::nat) \<and> list_all (\<lambda>(c, d). d \<le> (2000::nat)) [(1000::nat, 1000::nat), (1000, 2000)]
      \<and> sorted (map snd [(1000::nat, 1000::nat), (1000, 2000)])
      \<and> progress_events (demo_env (byte_reports 2000 [(1000, 1000), (1000, 2000)]))
          = byte_reports 2000 [(1000, 1000), (1000, 2000)]"
    by (simp add: demo_env_def)
  show ?thesis
    using k
      progress_nondecreasing [of boot "demo_env (byte_reports 2000 [(1000, 1000), (1000, 2000)])"
        demo_insert 5 2000 "[(1000, 1000), (1000, 2000)]"]
    unfolding j by blast
qed

text \<open>
  The claim as stated fails when a progress event reports more bytes than the total: the
  frame with 120 is followed by the archiving frame with 90.
\<close>

theorem pushed_progress_decreases:
  "pushed_progress (demo_env [(Num 1000, Num 3000, Num 2000)]) demo_insert 5 boot
     = [Num 0, Num 120, Num 90, Num 100]
   \<and> \<not> sorted_wrt js_le (pushed_progress (demo_env [(Num 1000, Num 3000, Num 2000)]) demo_insert 5 boot)"
  unfolding pushed_progress_shape
  by (simp add: demo_job demo_prepare progress_of_3000_2000)

section \<open>Serving and deleting the archive (claim C6)\<close>



















text \<open>
  The theorem speaks of a state whose stored status is "completed". After a cleanup
  failure the record is "failed" while the archive file is in place, and the request is
  answered 404.
\<close>

lemma archive_after_cleanup_failure:
  assumes "prepare env (fresh ins now s) = Inr (videoTitle, fmt)"
    and "stream_result env = Finish (Archived bytes) (Some msg)"
  shows "files (last (job_trace env ins now s))
           (zipPath_of env videoTitle (currentDownloadId (storage s))) = Some bytes"
    and "get_zip (Some (currentDownloadId (storage s))) (last (job_trace env ins now s))
           = (not_ready, last (job_trace env ins now s))"
  unfolding job_trace_def Let_def last_perform processDownload_fresh
  using assms
  by (simp_all add: storage_progress files_progress on_finish_def failed_def updateDownload_def
      createDownload_def spread_def override_def no_updates_def fresh_def get_zip_def
      find_download_def getDownload_def zipPath_of_def path_join_def Let_def)

end
